theory Spec2Isabelle
  imports Complex_Main "HOL-Library.Word"
begin

unbundle bit_operations_syntax

section \<open>Bytes and samples\<close>

text \<open>
  A byte is C's \<open>unsigned char\<close>. The buffer \<open>buf\<close> of \<open>is_binary\<close> together with
  \<open>read_len\<close> is a list of bytes whose length is \<open>read_len\<close>; indices are \<open>size_t\<close>
  values bounded by \<open>BINARY_CHECK_BYTES\<close>, so \<open>i + 3\<close> never wraps and \<open>nat\<close> models them.
\<close>

type_synonym byte = "8 word"

definition BINARY_CHECK_BYTES :: nat where
  "BINARY_CHECK_BYTES = 2048"

section \<open>file.c: the two encoding validators\<close>

text \<open>
  \<open>is_valid_utf8\<close>: the \<open>while (i < len)\<close> loop with the index as argument. The C
  conditions \<open>i + k >= len || ...\<close> short-circuit, so \<open>buf[i+k]\<close> is only read in range;
  in the model the disjunction is already true when the index is out of range.
\<close>

function is_valid_utf8_loop :: "byte list \<Rightarrow> nat \<Rightarrow> nat \<Rightarrow> bool" where
  "is_valid_utf8_loop buf len i =
     (if i < len then
        (if buf ! i \<le> 0x7F then is_valid_utf8_loop buf len (i + 1)
         else if (buf ! i) AND 0xE0 = 0xC0 then
           (if i + 1 \<ge> len \<or> (buf ! (i + 1)) AND 0xC0 \<noteq> 0x80 then False
            else is_valid_utf8_loop buf len (i + 2))
         else if (buf ! i) AND 0xF0 = 0xE0 then
           (if i + 2 \<ge> len \<or> (buf ! (i + 1)) AND 0xC0 \<noteq> 0x80
               \<or> (buf ! (i + 2)) AND 0xC0 \<noteq> 0x80 then False
            else is_valid_utf8_loop buf len (i + 3))
         else if (buf ! i) AND 0xF8 = 0xF0 then
           (if i + 3 \<ge> len \<or> (buf ! (i + 1)) AND 0xC0 \<noteq> 0x80
               \<or> (buf ! (i + 2)) AND 0xC0 \<noteq> 0x80
               \<or> (buf ! (i + 3)) AND 0xC0 \<noteq> 0x80 then False
            else is_valid_utf8_loop buf len (i + 4))
         else False)
      else True)"
  by pat_completeness auto
termination
  by (relation "measure (\<lambda>(buf, len, i). len - i)") auto

declare is_valid_utf8_loop.simps [simp del]

definition is_valid_utf8 :: "byte list \<Rightarrow> nat \<Rightarrow> bool" where
  "is_valid_utf8 buf len = is_valid_utf8_loop buf len 0"

function is_valid_shift_jis_loop :: "byte list \<Rightarrow> nat \<Rightarrow> nat \<Rightarrow> bool" where
  "is_valid_shift_jis_loop buf len i =
     (if i < len then
        (let c = buf ! i in
         if c \<le> 0x7F \<or> (0xA1 \<le> c \<and> c \<le> 0xDF) then is_valid_shift_jis_loop buf len (i + 1)
         else if (0x81 \<le> c \<and> c \<le> 0x9F) \<or> (0xE0 \<le> c \<and> c \<le> 0xEF) then
           (if i + 1 \<ge> len then False
            else (let c2 = buf ! (i + 1) in
                  if \<not> ((0x40 \<le> c2 \<and> c2 \<le> 0x7E) \<or> (0x80 \<le> c2 \<and> c2 \<le> 0xFC)) then False
                  else is_valid_shift_jis_loop buf len (i + 2)))
         else False)
      else True)"
  by pat_completeness auto
termination
  by (relation "measure (\<lambda>(buf, len, i). len - i)") auto

declare is_valid_shift_jis_loop.simps [simp del]

definition is_valid_shift_jis :: "byte list \<Rightarrow> nat \<Rightarrow> bool" where
  "is_valid_shift_jis buf len = is_valid_shift_jis_loop buf len 0"

section \<open>file.c: the fallback heuristic of is_binary\<close>

text \<open>
  \<open>isprint\<close> in the "C" locale (the program never calls \<open>setlocale\<close>): the bytes
  0x20 to 0x7E.
\<close>

definition isprint :: "byte \<Rightarrow> bool" where
  "isprint c = (0x20 \<le> c \<and> c \<le> 0x7E)"

text \<open>
  The \<open>for\<close> loop that counts hidden characters. \<open>Inl 1\<close> is the \<open>return 1\<close> inside
  the loop (a zero byte); \<open>Inr n\<close> is the value of \<open>non_printable\<close> when the loop ends.
\<close>

function count_non_printable :: "byte list \<Rightarrow> nat \<Rightarrow> nat \<Rightarrow> nat \<Rightarrow> int + nat" where
  "count_non_printable buf read_len i non_printable =
     (if i < read_len then
        (if buf ! i = 0 then Inl 1
         else if \<not> isprint (buf ! i) \<and> buf ! i \<noteq> 0x0A \<and> buf ! i \<noteq> 0x0D \<and> buf ! i \<noteq> 0x09
              then count_non_printable buf read_len (i + 1) (non_printable + 1)
              else count_non_printable buf read_len (i + 1) non_printable)
      else Inr non_printable)"
  by pat_completeness auto
termination
  by (relation "measure (\<lambda>(buf, read_len, i, n). read_len - i)") auto

declare count_non_printable.simps [simp del]

text \<open>
  The part of \<open>is_binary\<close> after \<open>fread\<close>: \<open>buf\<close> holds the \<open>read_len\<close> bytes read.
  Result 0 is Text, 1 is Binary. The test \<open>(double)non_printable / (double)read_len > 0.25\<close>
  is written over the reals: both counts are at most 2048, so they and 0.25 are exact
  doubles, the quotient is correctly rounded, and a quotient above 1/4 exceeds it by at
  least \<open>1 / (4 * 2048)\<close>, far more than the rounding error, so the comparison of doubles
  and the comparison of reals agree.
\<close>

definition is_binary_sample :: "byte list \<Rightarrow> int" where
  "is_binary_sample buf =
     (let read_len = length buf in
      if is_valid_utf8 buf read_len then 0
      else if is_valid_shift_jis buf read_len then 0
      else (case count_non_printable buf read_len 0 0 of
              Inl r \<Rightarrow> r
            | Inr non_printable \<Rightarrow>
                if read_len > 0 \<and> real non_printable / real read_len > 0.25 then 1 else 0))"


section \<open>The classification rules in the words of the specification\<close>

text \<open>
  The byte classes of the UTF-8 scan as bit patterns: ASCII \<open>0xxxxxxx\<close>, the leads
  \<open>110xxxxx\<close>, \<open>1110xxxx\<close>, \<open>11110xxx\<close> and the continuation byte \<open>10xxxxxx\<close>.
\<close>

definition ascii_byte :: "byte \<Rightarrow> bool" where
  "ascii_byte b = (\<not> bit b 7)"

definition lead2_byte :: "byte \<Rightarrow> bool" where
  "lead2_byte b = (bit b 7 \<and> bit b 6 \<and> \<not> bit b 5)"

definition lead3_byte :: "byte \<Rightarrow> bool" where
  "lead3_byte b = (bit b 7 \<and> bit b 6 \<and> bit b 5 \<and> \<not> bit b 4)"

definition lead4_byte :: "byte \<Rightarrow> bool" where
  "lead4_byte b = (bit b 7 \<and> bit b 6 \<and> bit b 5 \<and> bit b 4 \<and> \<not> bit b 3)"

definition continuation_byte :: "byte \<Rightarrow> bool" where
  "continuation_byte b = (bit b 7 \<and> \<not> bit b 6)"

text \<open>
  A sample is valid UTF-8 when it is a sequence of encoded code points: each is one
  ASCII byte, or a lead byte followed by as many continuation bytes as the lead
  announces. A sequence cut off by the end of the sample fits no rule.
\<close>

inductive utf8_sample :: "byte list \<Rightarrow> bool" where
  utf8_end: "utf8_sample []"
| utf8_one: "ascii_byte b \<Longrightarrow> utf8_sample bs \<Longrightarrow> utf8_sample (b # bs)"
| utf8_two: "lead2_byte b \<Longrightarrow> continuation_byte c1 \<Longrightarrow> utf8_sample bs
     \<Longrightarrow> utf8_sample (b # c1 # bs)"
| utf8_three: "lead3_byte b \<Longrightarrow> continuation_byte c1 \<Longrightarrow> continuation_byte c2
     \<Longrightarrow> utf8_sample bs \<Longrightarrow> utf8_sample (b # c1 # c2 # bs)"
| utf8_four: "lead4_byte b \<Longrightarrow> continuation_byte c1 \<Longrightarrow> continuation_byte c2
     \<Longrightarrow> continuation_byte c3 \<Longrightarrow> utf8_sample bs \<Longrightarrow> utf8_sample (b # c1 # c2 # c3 # bs)"

text \<open>
  Shift-JIS: single bytes 0x00-0x7F and 0xA1-0xDF stand alone; a lead byte 0x81-0x9F or
  0xE0-0xEF is followed by a trailing byte 0x40-0x7E or 0x80-0xFC.
\<close>

definition sjis_single_byte :: "byte \<Rightarrow> bool" where
  "sjis_single_byte b = (b \<le> 0x7F \<or> (0xA1 \<le> b \<and> b \<le> 0xDF))"

definition sjis_lead_byte :: "byte \<Rightarrow> bool" where
  "sjis_lead_byte b = ((0x81 \<le> b \<and> b \<le> 0x9F) \<or> (0xE0 \<le> b \<and> b \<le> 0xEF))"

definition sjis_trail_byte :: "byte \<Rightarrow> bool" where
  "sjis_trail_byte b = ((0x40 \<le> b \<and> b \<le> 0x7E) \<or> (0x80 \<le> b \<and> b \<le> 0xFC))"

inductive sjis_sample :: "byte list \<Rightarrow> bool" where
  sjis_end: "sjis_sample []"
| sjis_one: "sjis_single_byte b \<Longrightarrow> sjis_sample bs \<Longrightarrow> sjis_sample (b # bs)"
| sjis_two: "sjis_lead_byte b \<Longrightarrow> sjis_trail_byte c \<Longrightarrow> sjis_sample bs
     \<Longrightarrow> sjis_sample (b # c # bs)"

text \<open>A byte that is not printable and is none of newline, carriage return, tab.\<close>

definition hidden_byte :: "byte \<Rightarrow> bool" where
  "hidden_byte b = (\<not> isprint b \<and> b \<noteq> 0x0A \<and> b \<noteq> 0x0D \<and> b \<noteq> 0x09)"

section \<open>The host system and the state of a run\<close>

text \<open>
  The calls into the C library and the kernel are taken from an oracle. Each answer may
  depend on the moment of the call (the number of calls made before it, \<open>clock\<close>), so a
  file can vanish or change between two calls.
  \<^item> \<open>os_fopen t path\<close>: \<open>fopen(path, "r")\<close> or \<open>"rb"\<close>; \<open>None\<close> is \<open>NULL\<close>, otherwise
    the stream of bytes that reading delivers.
  \<^item> \<open>os_malloc t\<close>: whether \<open>malloc(BINARY_CHECK_BYTES)\<close> returns a buffer.
  \<^item> \<open>os_opendir t path\<close>: \<open>None\<close> when \<open>opendir\<close> returns \<open>NULL\<close>, otherwise the
    names \<open>readdir\<close> yields, in its order (the listing as it is when the directory
    is opened).
  \<^item> \<open>os_stat t path\<close>: \<open>None\<close> when \<open>stat\<close> returns -1, otherwise \<open>S_ISDIR\<close>.
  \<^item> \<open>os_strerror t\<close>: the message \<open>perror\<close> prints for \<open>errno\<close>.
  \<^item> \<open>os_realpath\<close>, \<open>os_getcwd\<close>: \<open>None\<close> is \<open>NULL\<close>.
  \<^item> \<open>os_fopen_w t path\<close>: whether \<open>fopen(path, "w")\<close> succeeds.
  The modes \<open>"r"\<close> and \<open>"rb"\<close> are the same on a POSIX host. An opened stream delivers
  its bytes without a read error and no call blocks for ever; writing to \<open>out\<close> and
  to standard error does not fail.

  A stream either reaches the end of the file after finitely many bytes (\<open>Bytes\<close>) or
  never does (\<open>Endless\<close>, byte \<open>i\<close> of the stream being \<open>f i\<close>): a device, a FIFO that
  is written without end, or a file that grows while it is read, as the output file does
  when the walker copies it into itself. \<open>fread n\<close> gives the bytes that
  \<open>fread(buf, 1, n, fp)\<close> stores when called on the stream as opened.
\<close>

datatype file_stream = is_Bytes: Bytes "byte list" | Endless "nat \<Rightarrow> byte"

fun fread :: "nat \<Rightarrow> file_stream \<Rightarrow> byte list" where
  "fread n (Bytes bs) = take n bs"
| "fread n (Endless f) = map f [0..<n]"

record os =
  os_fopen :: "nat \<Rightarrow> string \<Rightarrow> file_stream option"
  os_malloc :: "nat \<Rightarrow> bool"
  os_opendir :: "nat \<Rightarrow> string \<Rightarrow> string list option"
  os_stat :: "nat \<Rightarrow> string \<Rightarrow> bool option"
  os_strerror :: "nat \<Rightarrow> string"
  os_realpath :: "nat \<Rightarrow> string \<Rightarrow> string option"
  os_getcwd :: "nat \<Rightarrow> string option"
  os_fopen_w :: "nat \<Rightarrow> string \<Rightarrow> bool"

text \<open>
  The state of a run: the text written to the stream \<open>out\<close> (the output file, or
  standard output when no \<open>-o\<close> is given), the text written to standard error, the
  usage text \<open>print_usage\<close> writes to standard output before \<open>out\<close> is chosen, and the
  clock. Two logs record what the walker did: \<open>opened\<close> lists the paths handed to
  \<open>fopen\<close> for reading, \<open>visited\<close> the arguments \<open>(dir_path, depth)\<close> of every
  invocation of \<open>traverse_directory\<close>.
\<close>

record state =
  out :: string
  err :: string
  usage :: string
  clock :: nat
  opened :: "string list"
  visited :: "(string \<times> int) list"

text \<open>
  How a call ends. \<open>Done\<close>: it returns. \<open>Hangs\<close>: it never returns, because the loop
  that copies a file never reaches the end of the stream; the state is the one in which
  that loop is entered. \<open>Overflow\<close>: the recursion is deeper than the call stack has
  room for; the state is the one in which the invocation that does not fit is made.
\<close>

datatype 'a outcome = is_Done: Done 'a | is_Hangs: Hangs state | is_Overflow: Overflow state

fun state_of :: "state outcome \<Rightarrow> state" where
  "state_of (Done st) = st"
| "state_of (Hangs st) = st"
| "state_of (Overflow st) = st"

definition init_state :: state where
  "init_state = \<lparr>out = [], err = [], usage = [], clock = 0, opened = [], visited = []\<rparr>"

definition tick :: "state \<Rightarrow> state" where
  "tick st = st\<lparr>clock := clock st + 1\<rparr>"

definition fprintf_out :: "string \<Rightarrow> state \<Rightarrow> state" where
  "fprintf_out s st = st\<lparr>out := out st @ s\<rparr>"

definition fprintf_stderr :: "string \<Rightarrow> state \<Rightarrow> state" where
  "fprintf_stderr s st = st\<lparr>err := err st @ s\<rparr>"

definition perror :: "os \<Rightarrow> string \<Rightarrow> state \<Rightarrow> state" where
  "perror os s st = fprintf_stderr (s @ '': '' @ os_strerror os (clock st) @ ''\<newline>'') st"

definition byte_char :: "byte \<Rightarrow> char" where
  "byte_char b = char_of (unat b)"

section \<open>utils.h, utils.c\<close>

definition BUFFER_SIZE :: nat where
  "BUFFER_SIZE = 1024"

definition MAX_PATH_LENGTH :: nat where
  "MAX_PATH_LENGTH = 4096"

definition MAX_OUTPUT_FILE :: nat where
  "MAX_OUTPUT_FILE = 256"

text \<open>\<open>snprintf(buf, n, ...)\<close> stores at most \<open>n - 1\<close> characters of the text.\<close>

definition snprintf :: "nat \<Rightarrow> string \<Rightarrow> string" where
  "snprintf n s = take (n - 1) s"

text \<open>
  \<open>normalize_path\<close>: every backslash becomes a slash, then the \<open>while\<close> loop cuts the
  trailing slashes off by moving the terminator.
\<close>

function strip_trailing :: "string \<Rightarrow> nat \<Rightarrow> nat" where
  "strip_trailing path len =
     (if len > 0 \<and> (path ! (len - 1) = CHR ''/'' \<or> path ! (len - 1) = CHR 0x5C)
      then strip_trailing path (len - 1) else len)"
  by pat_completeness auto
termination
  by (relation "measure (\<lambda>(path, len). len)") auto

declare strip_trailing.simps [simp del]

definition normalize_path :: "string \<Rightarrow> string" where
  "normalize_path path =
     (let p = map (\<lambda>c. if c = CHR 0x5C then CHR ''/'' else c) path
      in take (strip_trailing p (length p)) p)"

definition usage_text :: string where
  "usage_text =
     ''Usage: vita [OPTIONS] <DIR_PATH>\<newline>'' @
     ''Options:\<newline>'' @
     ''  -o <FILE>   Write output to <FILE> instead of standard output.\<newline>'' @
     ''  -d <DEPTH>  Set maximum depth for directory traversal (default: unlimited).\<newline>'' @
     ''  -h, --help Show this help message and exit.\<newline>''"

definition print_usage :: "state \<Rightarrow> state" where
  "print_usage st = st\<lparr>usage := usage st @ usage_text\<rparr>"

text \<open>
  \<open>is_binary\<close>: -1 when the file cannot be opened or the buffer not allocated,
  otherwise the verdict on the first \<open>BINARY_CHECK_BYTES\<close> bytes (\<open>fread\<close> delivers
  that many, or the whole file when it is shorter).
\<close>

definition is_binary :: "os \<Rightarrow> string \<Rightarrow> state \<Rightarrow> int \<times> state" where
  "is_binary os path st =
     (let st1 = tick (st\<lparr>opened := opened st @ [path]\<rparr>) in
      case os_fopen os (clock st) path of
        None \<Rightarrow> (-1, st1)
      | Some content \<Rightarrow>
          if \<not> os_malloc os (clock st1) then (-1, tick st1)
          else (is_binary_sample (fread BINARY_CHECK_BYTES content), tick st1))"

text \<open>
  \<open>fgets(buffer, n, fp)\<close> stores at most \<open>n - 1\<close> bytes and stops behind a newline;
  \<open>fgets_chars\<close> gives the bytes stored. At the end of the stream with nothing read,
  \<open>fgets\<close> returns \<open>NULL\<close>. \<open>fprintf(out, "%s", buffer)\<close> prints the buffer up to its
  first zero byte (\<open>c_string\<close>).
\<close>

fun fgets_chars :: "nat \<Rightarrow> byte list \<Rightarrow> byte list" where
  "fgets_chars k [] = []"
| "fgets_chars k (c # cs) =
     (if k = 0 then [] else if c = 0x0A then [c] else c # fgets_chars (k - 1) cs)"

fun fgets :: "nat \<Rightarrow> file_stream \<Rightarrow> (byte list \<times> file_stream) option" where
  "fgets n (Bytes bs) =
     (if bs = [] then None
      else (let buffer = fgets_chars (n - 1) bs
            in Some (buffer, Bytes (drop (length buffer) bs))))"
| "fgets n (Endless f) =
     (let buffer = fgets_chars (n - 1) (map f [0..<n - 1])
      in Some (buffer, Endless (\<lambda>i. f (length buffer + i))))"

definition c_string :: "byte list \<Rightarrow> string" where
  "c_string buffer = map byte_char (takeWhile (\<lambda>b. b \<noteq> 0) buffer)"

text \<open>
  The loop \<open>while (fgets(buffer, sizeof(buffer), fp)) fprintf(out, "%s", buffer)\<close>.
  It ends when \<open>fgets\<close> returns \<open>NULL\<close>; \<open>None\<close> is the loop that never ends.
\<close>

partial_function (option) copy_lines :: "file_stream \<Rightarrow> state \<Rightarrow> state option" where
  "copy_lines stream st =
     (case fgets BUFFER_SIZE stream of
        None \<Rightarrow> Some st
      | Some (buffer, rest) \<Rightarrow> copy_lines rest (fprintf_out (c_string buffer) st))"

declare copy_lines.simps [code]

definition file_header :: "string \<Rightarrow> string" where
  "file_header path =
     ''--------------------------------------------------------------------------------\<newline>'' @
     path @ '':\<newline>'' @
     ''--------------------------------------------------------------------------------\<newline>''"

definition print_file_content :: "os \<Rightarrow> string \<Rightarrow> state \<Rightarrow> state outcome" where
  "print_file_content os path st =
     (case is_binary os path st of (bin, st1) \<Rightarrow>
        (let st2 = fprintf_out (file_header path) st1 in
         if bin = -1
         then Done (fprintf_out (''Cannot open file: '' @ path @ ''\<newline>\<newline>'') st2)
         else if bin = 1 then Done (fprintf_out ''This is binary file\<newline>\<newline>'' st2)
         else (let st3 = tick (st2\<lparr>opened := opened st2 @ [path]\<rparr>) in
               case os_fopen os (clock st2) path of
                 None \<Rightarrow>
                   Done (fprintf_out (''Cannot open file: '' @ path @ ''\<newline>\<newline>'') st3)
               | Some content \<Rightarrow>
                   (case copy_lines content st3 of
                      None \<Rightarrow> Hangs st3
                    | Some st4 \<Rightarrow> Done (fprintf_out ''\<newline>'' st4)))))"

section \<open>traverse.c\<close>

text \<open>
  \<open>traverse_directory\<close> (the POSIX branch) and its \<open>while ((entry = readdir(dir)))\<close>
  loop, \<open>readdir_loop\<close>, over the names still to come. The recursion of the C code is
  bounded by the call stack only: the first argument is the number of nested
  invocations the stack still has room for, and an invocation made when it is 0 is an
  \<open>Overflow\<close>. \<open>depth\<close> and \<open>max_depth\<close> are C \<open>int\<close>s; \<open>depth + 1\<close> is computed only
  below \<open>max_depth\<close>, or, without a limit, once per nested invocation, so it stays far
  from \<open>INT_MAX\<close>.
\<close>

fun traverse_directory ::
      "nat \<Rightarrow> os \<Rightarrow> string \<Rightarrow> int \<Rightarrow> int \<Rightarrow> string \<Rightarrow> state \<Rightarrow> state outcome"
  and readdir_loop ::
      "nat \<Rightarrow> os \<Rightarrow> string list \<Rightarrow> string \<Rightarrow> int \<Rightarrow> int \<Rightarrow> string \<Rightarrow> state \<Rightarrow> state outcome"
where
  "traverse_directory 0 os dir_path depth max_depth output_file_path st = Overflow st"
| "traverse_directory (Suc fuel) os dir_path depth max_depth output_file_path st =
     (let st0 = st\<lparr>visited := visited st @ [(dir_path, depth)]\<rparr> in
      if max_depth \<noteq> -1 \<and> depth > max_depth then Done st0
      else (case os_opendir os (clock st0) dir_path of
              None \<Rightarrow>
                Done (fprintf_out (''Cannot open directory: '' @ dir_path @ ''\<newline>'') (tick st0))
            | Some names \<Rightarrow>
                readdir_loop fuel os names dir_path depth max_depth output_file_path (tick st0)))"
| "readdir_loop fuel os [] dir_path depth max_depth output_file_path st = Done st"
| "readdir_loop fuel os (name # names) dir_path depth max_depth output_file_path st =
     (if name = ''.'' \<or> name = ''..''
      then readdir_loop fuel os names dir_path depth max_depth output_file_path st
      else (let path = normalize_path (snprintf MAX_PATH_LENGTH (dir_path @ ''/'' @ name)) in
            case os_stat os (clock st) path of
              None \<Rightarrow>
                readdir_loop fuel os names dir_path depth max_depth output_file_path
                  (perror os ''stat'' (tick st))
            | Some is_dir \<Rightarrow>
                if is_dir then
                  (if max_depth = -1 \<or> depth < max_depth then
                     (case traverse_directory fuel os path (depth + 1) max_depth output_file_path
                             (tick st) of
                        Done st' \<Rightarrow>
                          readdir_loop fuel os names dir_path depth max_depth output_file_path st'
                      | Hangs st' \<Rightarrow> Hangs st'
                      | Overflow st' \<Rightarrow> Overflow st')
                   else readdir_loop fuel os names dir_path depth max_depth output_file_path
                          (tick st))
                else if path = output_file_path
                  then readdir_loop fuel os names dir_path depth max_depth output_file_path
                         (tick st)
                  else (case print_file_content os path (tick st) of
                          Done st' \<Rightarrow>
                            readdir_loop fuel os names dir_path depth max_depth output_file_path st'
                        | Hangs st' \<Rightarrow> Hangs st'
                        | Overflow st' \<Rightarrow> Overflow st')))"

text \<open>The path the loop builds for an entry: \<open>snprintf\<close>, then \<open>normalize_path\<close>.\<close>

abbreviation entry_path :: "string \<Rightarrow> string \<Rightarrow> string" where
  "entry_path dir name \<equiv> normalize_path (snprintf MAX_PATH_LENGTH (dir @ ''/'' @ name))"

section \<open>main.c\<close>

text \<open>
  \<open>main\<close> is given the room on the call stack as its first argument.
  \<open>getopt_long\<close> and \<open>atoi\<close> belong to the C library: \<open>main\<close> is given the values
  \<open>getopt_long\<close> returns before it returns -1 (with \<open>optarg\<close>, and for \<open>-d\<close> the value of
  \<open>atoi(optarg)\<close>), and the operands \<open>argv[optind], ...\<close> left after them.
\<close>

datatype getopt_return =
    Opt_o string
  | Opt_d string int
  | Opt_h
  | Opt_unknown "char option"
  | Opt_other

record options =
  output_file :: string
  max_depth :: int

definition EXIT_SUCCESS :: int where
  "EXIT_SUCCESS = 0"

definition EXIT_FAILURE :: int where
  "EXIT_FAILURE = 1"

fun getopt_loop ::
  "getopt_return list \<Rightarrow> options \<Rightarrow> state \<Rightarrow> (int \<times> state) + (options \<times> state)" where
  "getopt_loop [] opts st = Inr (opts, st)"
| "getopt_loop (Opt_o optarg # rest) opts st =
     getopt_loop rest (opts\<lparr>output_file := take (MAX_OUTPUT_FILE - 1) optarg\<rparr>) st"
| "getopt_loop (Opt_d optarg n # rest) opts st =
     (if n < 0
      then Inl (EXIT_FAILURE,
             fprintf_stderr (''Error: Invalid depth value '' @ [CHR 0x27] @ optarg @ [CHR 0x27] @
                             ''. Must be a non-negative integer.\<newline>'') st)
      else getopt_loop rest (opts\<lparr>max_depth := n\<rparr>) st)"
| "getopt_loop (Opt_h # rest) opts st = Inl (EXIT_SUCCESS, print_usage st)"
| "getopt_loop (Opt_unknown optopt # rest) opts st =
     Inl (EXIT_FAILURE,
          print_usage
            (case optopt of
               Some c \<Rightarrow> fprintf_stderr (''vita: unknown option -- '' @ [c] @ ''\<newline>'') st
             | None \<Rightarrow> fprintf_stderr ''vita: unknown option\<newline>'' st))"
| "getopt_loop (Opt_other # rest) opts st = Inl (EXIT_FAILURE, print_usage st)"

text \<open>
  The block of \<open>main\<close> that chooses \<open>out\<close> and computes \<open>output_file_path\<close> (all zero
  bytes, the empty string, when no \<open>-o\<close> is given).
\<close>

definition fopen_output :: "os \<Rightarrow> options \<Rightarrow> string \<Rightarrow> state \<Rightarrow> (int \<times> state) + (string \<times> state)" where
  "fopen_output os opts output_file_path st =
     (if os_fopen_w os (clock st) (output_file opts) then Inr (output_file_path, tick st)
      else Inl (EXIT_FAILURE,
             fprintf_stderr (''Error: Cannot open output file: '' @ output_file opts @ ''\<newline>'')
               (tick st)))"

definition choose_output :: "os \<Rightarrow> options \<Rightarrow> state \<Rightarrow> (int \<times> state) + (string \<times> state)" where
  "choose_output os opts st =
     (if output_file opts \<noteq> [] then
        (case os_realpath os (clock st) (output_file opts) of
           Some resolved \<Rightarrow> fopen_output os opts resolved (tick st)
         | None \<Rightarrow>
             (case os_getcwd os (clock (tick st)) of
                Some cwd \<Rightarrow>
                  if length cwd + length (output_file opts) + 1 \<ge> MAX_PATH_LENGTH
                  then Inl (EXIT_FAILURE,
                         fprintf_stderr ''Error: Output file path is too long.\<newline>''
                           (tick (tick st)))
                  else fopen_output os opts
                         (normalize_path
                            (snprintf MAX_PATH_LENGTH (cwd @ ''/'' @ output_file opts)))
                         (tick (tick st))
              | None \<Rightarrow>
                  Inl (EXIT_FAILURE,
                       fprintf_stderr ''Error: Cannot get current working directory.\<newline>''
                         (tick (tick st)))))
      else Inr ([], st))"

definition root_banner :: "string \<Rightarrow> string" where
  "root_banner normalized_root =
     ''================================================================================\<newline>'' @
     normalized_root @ ''/\<newline>'' @
     ''================================================================================\<newline>''"

definition main ::
  "nat \<Rightarrow> os \<Rightarrow> nat \<Rightarrow> getopt_return list \<Rightarrow> string list \<Rightarrow> (int \<times> state) outcome" where
  "main fuel os argc getopt_returns operands =
     (if argc < 2 then Done (EXIT_FAILURE, print_usage init_state)
      else (case getopt_loop getopt_returns \<lparr>output_file = [], max_depth = -1\<rparr> init_state of
              Inl r \<Rightarrow> Done r
            | Inr (opts, st) \<Rightarrow>
               (case operands of
                  [] \<Rightarrow>
                    Done (EXIT_FAILURE,
                          print_usage
                            (fprintf_stderr ''Error: Directory path not specified.\<newline>'' st))
                | dir_path # _ \<Rightarrow>
                   (case os_stat os (clock st) dir_path of
                      None \<Rightarrow>
                        Done (EXIT_FAILURE,
                              fprintf_stderr (''Error: Directory '' @ [CHR 0x27] @ dir_path @
                                              [CHR 0x27] @ '' does not exist.\<newline>'') (tick st))
                    | Some is_dir \<Rightarrow>
                        if \<not> is_dir
                        then Done (EXIT_FAILURE,
                               fprintf_stderr (''Error: '' @ [CHR 0x27] @ dir_path @ [CHR 0x27] @
                                               '' is not a directory.\<newline>'') (tick st))
                        else (case choose_output os opts (tick st) of
                                Inl r \<Rightarrow> Done r
                              | Inr (output_file_path, st1) \<Rightarrow>
                                 (let normalized_root =
                                        normalize_path (snprintf MAX_PATH_LENGTH dir_path);
                                      st2 = fprintf_out (root_banner normalized_root) st1
                                  in case traverse_directory fuel os normalized_root 0
                                            (max_depth opts) output_file_path st2 of
                                       Done st3 \<Rightarrow> Done (EXIT_SUCCESS, st3)
                                     | Hangs st3 \<Rightarrow> Hangs st3
                                     | Overflow st3 \<Rightarrow> Overflow st3))))))"

section \<open>Example hosts\<close>

text \<open>
  A small tree under \<open>/r\<close>: a text file, an entry whose \<open>stat\<close> fails (\<open>gone\<close>), a
  directory that cannot be opened (\<open>locked\<close>), a file that cannot be opened (\<open>secret\<close>)
  and a subdirectory with a binary file and a deeper directory.
\<close>

definition demo_os :: os where
  "demo_os =
     \<lparr>os_fopen = (\<lambda>t path.
          if path = ''/r/a.txt'' then Some (Bytes [0x68, 0x65, 0x6C, 0x6C, 0x6F, 0x0A])
          else if path = ''/r/sub/b.bin'' then Some (Bytes [0x00, 0xFF, 0x02])
          else if path = ''/r/sub/deep/c.txt'' then Some (Bytes [0x63, 0x0A])
          else None),
      os_malloc = (\<lambda>t. True),
      os_opendir = (\<lambda>t path.
          if path = ''/r'' then Some [''.'', ''..'', ''a.txt'', ''gone'', ''locked'', ''sub'', ''secret'']
          else if path = ''/r/sub'' then Some [''.'', ''..'', ''b.bin'', ''deep'']
          else if path = ''/r/sub/deep'' then Some [''.'', ''..'', ''c.txt'']
          else None),
      os_stat = (\<lambda>t path.
          if path = ''/r'' \<or> path = ''/r/locked'' \<or> path = ''/r/sub'' \<or> path = ''/r/sub/deep''
          then Some True
          else if path = ''/r/a.txt'' \<or> path = ''/r/secret'' \<or> path = ''/r/sub/b.bin''
                  \<or> path = ''/r/sub/deep/c.txt''
          then Some False
          else None),
      os_strerror = (\<lambda>t. ''No such file or directory''),
      os_realpath = (\<lambda>t path. None),
      os_getcwd = (\<lambda>t. Some ''/w''),
      os_fopen_w = (\<lambda>t path. True)\<rparr>"

text \<open>
  A host on which the file \<open>f\<close> (the text \<open>hi\<close> and a newline) can be opened at the
  first call only: it is gone when \<open>print_file_content\<close> opens it again.
\<close>

definition vanishing_os :: os where
  "vanishing_os =
     \<lparr>os_fopen = (\<lambda>t path.
          if path = ''f'' \<and> t = 0 then Some (Bytes [0x68, 0x69, 0x0A]) else None),
      os_malloc = (\<lambda>t. True),
      os_opendir = (\<lambda>t path. None),
      os_stat = (\<lambda>t path. None),
      os_strerror = (\<lambda>t. ''No such file or directory''),
      os_realpath = (\<lambda>t path. None),
      os_getcwd = (\<lambda>t. Some ''/w''),
      os_fopen_w = (\<lambda>t path. True)\<rparr>"

text \<open>
  The run \<open>vita -o out.txt .\<close> in the working directory \<open>/w\<close>, which holds \<open>a.txt\<close>
  and the output file \<open>out.txt\<close> (empty when the walker reads it: \<open>fopen(..., "w")\<close> has
  truncated it and the records written so far are still in the stream's buffer).
\<close>

definition cwd_os :: os where
  "cwd_os =
     \<lparr>os_fopen = (\<lambda>t path.
          if path = ''./a.txt'' then Some (Bytes [0x68, 0x69, 0x0A])
          else if path = ''./out.txt'' then Some (Bytes [])
          else None),
      os_malloc = (\<lambda>t. True),
      os_opendir = (\<lambda>t path. if path = ''.'' then Some [''.'', ''..'', ''a.txt'', ''out.txt''] else None),
      os_stat = (\<lambda>t path.
          if path = ''.'' then Some True
          else if path = ''./a.txt'' \<or> path = ''./out.txt'' then Some False
          else None),
      os_strerror = (\<lambda>t. ''No such file or directory''),
      os_realpath = (\<lambda>t path. if path = ''out.txt'' then Some ''/w/out.txt'' else None),
      os_getcwd = (\<lambda>t. Some ''/w''),
      os_fopen_w = (\<lambda>t path. True)\<rparr>"

text \<open>2048 letters \<open>A\<close>: a sample that fills the buffer of \<open>is_binary\<close>.\<close>

definition long_text :: "byte list" where
  "long_text = replicate 2048 0x41"

text \<open>
  The same host with one file for every path: \<open>a\<close>, a zero byte, \<open>b\<close>, a newline.
\<close>

definition nul_os :: os where
  "nul_os = demo_os\<lparr>os_fopen := \<lambda>t path. Some (Bytes [0x61, 0x00, 0x62, 0x0A])\<rparr>"




section \<open>Hosts on which a run returns\<close>





section \<open>The validators meet the rules of the specification\<close>

lemma bit_index_cases: "(n::nat) < 8 \<Longrightarrow> n \<in> {0, 1, 2, 3, 4, 5, 6, 7}"
  by auto

lemma byte_eq_bits: "(a::byte) = b \<longleftrightarrow> (bit a 0 = bit b 0 \<and> bit a 1 = bit b 1 \<and> bit a 2 = bit b 2 \<and> bit a 3 = bit b 3
   \<and> bit a 4 = bit b 4 \<and> bit a 5 = bit b 5 \<and> bit a 6 = bit b 6 \<and> bit a 7 = bit b 7)"
  (is "?l \<longleftrightarrow> ?r")
proof
  assume ?l then show ?r by simp
next
  assume h: ?r
  show "a = b"
  proof (rule bit_word_eqI)
    fix n assume "n < LENGTH(8)"
    then have "n < 8" by simp
    then show "bit a n = bit b n" using h bit_index_cases [of n] by auto
  qed
qed

lemma ascii_byte_iff: "b \<le> 0x7F \<longleftrightarrow> ascii_byte b"
proof -
  have "b \<le> 0x7F \<longleftrightarrow> b < 2 ^ 7" by (simp add: word_le_nat_alt word_less_nat_alt) arith
  also have "\<dots> \<longleftrightarrow> b AND mask 7 = b" by (rule mask_eq_iff_w2p [symmetric]) (simp add: word_size)
  also have "\<dots> \<longleftrightarrow> \<not> bit b 7"
    apply (subst byte_eq_bits)
    apply (auto simp: bit_and_iff bit_mask_iff)
    done
  finally show ?thesis by (simp add: ascii_byte_def)
qed

lemma lead2_byte_iff: "b AND 0xE0 = 0xC0 \<longleftrightarrow> lead2_byte b"
  unfolding lead2_byte_def
  apply (subst byte_eq_bits)
  apply (auto simp: bit_and_iff)
  done

lemma lead3_byte_iff: "b AND 0xF0 = 0xE0 \<longleftrightarrow> lead3_byte b"
  unfolding lead3_byte_def
  apply (subst byte_eq_bits)
  apply (auto simp: bit_and_iff)
  done

lemma lead4_byte_iff: "b AND 0xF8 = 0xF0 \<longleftrightarrow> lead4_byte b"
  unfolding lead4_byte_def
  apply (subst byte_eq_bits)
  apply (auto simp: bit_and_iff)
  done

lemma continuation_byte_iff: "b AND 0xC0 = 0x80 \<longleftrightarrow> continuation_byte b"
  unfolding continuation_byte_def
  apply (subst byte_eq_bits)
  apply (auto simp: bit_and_iff)
  done

lemmas byte_class_iffs = ascii_byte_iff lead2_byte_iff lead3_byte_iff lead4_byte_iff continuation_byte_iff

lemma utf8_sample_loop:
  "utf8_sample bs \<Longrightarrow> is_valid_utf8_loop (pre @ bs) (length pre + length bs) (length pre)"
proof (induction bs arbitrary: pre rule: utf8_sample.induct)
  case utf8_end
  show ?case by (subst is_valid_utf8_loop.simps) simp
next
  case (utf8_one b bs)
  from utf8_one.IH [of "pre @ [b]"] utf8_one.hyps(1) show ?case
    by (subst is_valid_utf8_loop.simps) (simp add: byte_class_iffs nth_append)
next
  case (utf8_two b c1 bs)
  from utf8_two.IH [of "pre @ [b, c1]"] utf8_two.hyps(1,2) show ?case
    by (subst is_valid_utf8_loop.simps)
       (simp add: byte_class_iffs nth_append ascii_byte_def lead2_byte_def)
next
  case (utf8_three b c1 c2 bs)
  from utf8_three.IH [of "pre @ [b, c1, c2]"] utf8_three.hyps(1,2,3) show ?case
    by (subst is_valid_utf8_loop.simps)
       (simp add: byte_class_iffs nth_append ascii_byte_def lead2_byte_def lead3_byte_def eval_nat_numeral)
next
  case (utf8_four b c1 c2 c3 bs)
  from utf8_four.IH [of "pre @ [b, c1, c2, c3]"] utf8_four.hyps(1,2,3,4) show ?case
    by (subst is_valid_utf8_loop.simps)
       (simp add: byte_class_iffs nth_append ascii_byte_def lead2_byte_def lead3_byte_def lead4_byte_def eval_nat_numeral)
qed

lemma utf8_sample_valid: "utf8_sample bs \<Longrightarrow> is_valid_utf8 bs (length bs)"
  using utf8_sample_loop [of bs "[]"] by (simp add: is_valid_utf8_def)

lemma loop_utf8_sample:
  "is_valid_utf8_loop buf len i \<Longrightarrow> len = length buf \<Longrightarrow> utf8_sample (drop i buf)"
proof (induction buf len i rule: is_valid_utf8_loop.induct)
  case (1 buf len i)
  show ?case
  proof (cases "i < len")
    case False
    with 1 show ?thesis by (simp add: utf8_end)
  next
    case True
    from True "1.prems" have d0: "drop i buf = buf ! i # drop (i + 1) buf"
      by (simp add: Cons_nth_drop_Suc)
    have dS: "\<And>k. i + k < len \<Longrightarrow> drop (i + k) buf = buf ! (i + k) # drop (i + (k + 1)) buf"
      using "1.prems" by (simp add: Cons_nth_drop_Suc)
    from "1.prems"(1) True show ?thesis
      apply (subst (asm) is_valid_utf8_loop.simps)
      apply (simp split: if_splits)
      subgoal using "1.IH"(1) "1.prems"(2) d0 by (simp add: utf8_one byte_class_iffs)
      subgoal using "1.IH"(2) "1.prems"(2) d0 dS [of 1]
        by (simp add: utf8_two byte_class_iffs)
      subgoal using "1.IH"(3) "1.prems"(2) d0 dS [of 1] dS [of 2]
        by (simp add: utf8_three byte_class_iffs)
      subgoal using "1.IH"(4) "1.prems"(2) d0 dS [of 1] dS [of 2] dS [of 3]
        by (simp add: utf8_four byte_class_iffs)
      done
  qed
qed

lemma is_valid_utf8_iff: "is_valid_utf8 bs (length bs) \<longleftrightarrow> utf8_sample bs"
  using loop_utf8_sample [of bs "length bs" 0] utf8_sample_valid [of bs]
  by (auto simp: is_valid_utf8_def)

lemma sjis_lead_not_single: "sjis_lead_byte b \<Longrightarrow> \<not> sjis_single_byte b"
  by (auto simp: sjis_lead_byte_def sjis_single_byte_def word_le_nat_alt)

lemma sjis_sample_loop:
  "sjis_sample bs \<Longrightarrow> is_valid_shift_jis_loop (pre @ bs) (length pre + length bs) (length pre)"
proof (induction bs arbitrary: pre rule: sjis_sample.induct)
  case sjis_end
  show ?case by (subst is_valid_shift_jis_loop.simps) simp
next
  case (sjis_one b bs)
  from sjis_one.IH [of "pre @ [b]"] sjis_one.hyps(1) show ?case
    by (subst is_valid_shift_jis_loop.simps) (simp add: nth_append sjis_single_byte_def)
next
  case (sjis_two b c bs)
  from sjis_two.IH [of "pre @ [b, c]"] sjis_two.hyps(1,2) sjis_lead_not_single [OF sjis_two.hyps(1)]
  show ?case
    by (subst is_valid_shift_jis_loop.simps)
       (auto simp: nth_append sjis_single_byte_def sjis_lead_byte_def sjis_trail_byte_def)
qed

lemma loop_sjis_sample:
  "is_valid_shift_jis_loop buf len i \<Longrightarrow> len = length buf \<Longrightarrow> sjis_sample (drop i buf)"
proof (induction buf len i rule: is_valid_shift_jis_loop.induct)
  case (1 buf len i)
  show ?case
  proof (cases "i < len")
    case False
    with 1 show ?thesis by (simp add: sjis_end)
  next
    case True
    from True "1.prems" have d0: "drop i buf = buf ! i # drop (i + 1) buf"
      by (simp add: Cons_nth_drop_Suc)
    have d1: "i + 1 < length buf \<Longrightarrow> drop (i + 1) buf = buf ! (i + 1) # drop (i + 2) buf"
      by (simp add: Cons_nth_drop_Suc)
    from "1.prems"(1) True have body:
      "(sjis_single_byte (buf ! i) \<and> is_valid_shift_jis_loop buf len (i + 1)) \<or>
       (\<not> sjis_single_byte (buf ! i) \<and> sjis_lead_byte (buf ! i) \<and> i + 1 < len \<and>
        sjis_trail_byte (buf ! (i + 1)) \<and> is_valid_shift_jis_loop buf len (i + 2))"
      by (subst (asm) is_valid_shift_jis_loop.simps)
         (auto simp: Let_def sjis_single_byte_def sjis_lead_byte_def sjis_trail_byte_def
               split: if_splits)
    then show ?thesis
    proof (elim disjE conjE)
      assume s: "sjis_single_byte (buf ! i)" and l: "is_valid_shift_jis_loop buf len (i + 1)"
      from s l True "1.prems"(2) "1.IH"(1) [OF True refl] have "sjis_sample (drop (i + 1) buf)"
        by (auto simp: sjis_single_byte_def)
      with s d0 show ?thesis by (simp add: sjis_one)
    next
      assume ns: "\<not> sjis_single_byte (buf ! i)" and ld: "sjis_lead_byte (buf ! i)"
        and lt: "i + 1 < len" and tr: "sjis_trail_byte (buf ! (i + 1))"
        and l: "is_valid_shift_jis_loop buf len (i + 2)"
      from ns ld lt tr l True "1.prems"(2) "1.IH"(2) [OF True refl _ _ _ refl]
      have "sjis_sample (drop (i + 2) buf)"
        by (auto simp: sjis_single_byte_def sjis_lead_byte_def sjis_trail_byte_def)
      with ld tr d0 d1 lt "1.prems"(2) show ?thesis by (simp add: sjis_two)
    qed
  qed
qed

lemma is_valid_shift_jis_iff: "is_valid_shift_jis bs (length bs) \<longleftrightarrow> sjis_sample bs"
  using loop_sjis_sample [of bs "length bs" 0] sjis_sample_loop [of bs "[]"]
  by (auto simp: is_valid_shift_jis_def)

lemma count_non_printable_zero:
  "i \<le> length buf \<Longrightarrow> 0 \<in> set (drop i buf) \<Longrightarrow> count_non_printable buf (length buf) i n = Inl 1"
proof (induction buf "length buf" i n rule: count_non_printable.induct)
  case (1 buf i n)
  show ?case
  proof (cases "i < length buf")
    case False
    with "1.prems" show ?thesis by simp
  next
    case True
    then have d0: "drop i buf = buf ! i # drop (i + 1) buf"
      by (simp add: Cons_nth_drop_Suc)
    show ?thesis
    proof (cases "buf ! i = 0")
      case z: True
      with True show ?thesis by (subst count_non_printable.simps) simp
    next
      case nz: False
      with "1.prems"(2) d0 have rest: "0 \<in> set (drop (i + 1) buf)" by auto
      from True have le: "i + 1 \<le> length buf" by simp
      from True nz "1.hyps"(1) [OF True nz _ le rest] "1.hyps"(2) [OF True nz _ le rest]
      show ?thesis by (subst count_non_printable.simps) auto
    qed
  qed
qed

lemma count_non_printable_nonzero:
  "i \<le> length buf \<Longrightarrow> 0 \<notin> set (drop i buf) \<Longrightarrow>
   count_non_printable buf (length buf) i n = Inr (n + length (filter hidden_byte (drop i buf)))"
proof (induction buf "length buf" i n rule: count_non_printable.induct)
  case (1 buf i n)
  show ?case
  proof (cases "i < length buf")
    case False
    then show ?thesis by (subst count_non_printable.simps) simp
  next
    case True
    then have d0: "drop i buf = buf ! i # drop (i + 1) buf"
      by (simp add: Cons_nth_drop_Suc)
    with "1.prems"(2) have nz: "buf ! i \<noteq> 0" and rest: "0 \<notin> set (drop (i + 1) buf)" by auto
    from True have le: "i + 1 \<le> length buf" by simp
    from True nz "1.hyps"(1) [OF True nz _ le rest] "1.hyps"(2) [OF True nz _ le rest]
    show ?thesis
      by (subst count_non_printable.simps) (auto simp: d0 hidden_byte_def)
  qed
qed


section \<open>Properties of the classifier\<close>

text \<open>
  C1, as stated: every sample with a 0x00 byte is Binary, also when it passes the UTF-8
  or Shift-JIS validation. The code refutes it: the bytes 00 01 02 are ASCII, so the
  sample passes \<open>is_valid_utf8\<close> and \<open>is_binary\<close> returns 0 (Text) before the loop
  with the zero-byte test is reached.
\<close>

theorem null_byte_sample_classified_text:
  "(0 :: byte) \<in> set [0x00, 0x01, 0x02] \<and> is_binary_sample [0x00, 0x01, 0x02] \<noteq> 1"
  by code_simp

text \<open>
  C1, amended: a sample with a 0x00 byte is Binary exactly when it passes neither the
  UTF-8 nor the Shift-JIS validation; when it passes one of them it is Text.
\<close>

theorem null_byte_veto:
  "0 \<in> set buf \<Longrightarrow>
   is_binary_sample buf = (if utf8_sample buf \<or> sjis_sample buf then 0 else 1)"
  using count_non_printable_zero [of 0 buf 0]
  by (simp add: is_binary_sample_def Let_def is_valid_utf8_iff is_valid_shift_jis_iff)

theorem null_byte_veto_witness:
  "(0 :: byte) \<in> set [0x00, 0xFF] \<and> is_binary_sample [0x00, 0xFF] = 1"
proof -
  have z: "(0 :: byte) \<in> set [0x00, 0xFF]" by simp
  have u: "\<not> utf8_sample [0x00, 0xFF]"
    unfolding is_valid_utf8_iff [symmetric] by code_simp
  have j: "\<not> sjis_sample [0x00, 0xFF]"
    unfolding is_valid_shift_jis_iff [symmetric] by code_simp
  from null_byte_veto [OF z] u j z show ?thesis by simp
qed

text \<open>
  C4: every sample that is valid UTF-8 (a sequence of correctly encoded code points, none
  cut off by the end of the sample) is classified Text: \<open>is_binary\<close> returns 0.
\<close>

theorem valid_utf8_is_text: "utf8_sample buf \<Longrightarrow> is_binary_sample buf = 0"
  by (simp add: is_binary_sample_def is_valid_utf8_iff)

theorem valid_utf8_is_text_witness:
  "utf8_sample [0x41, 0xC3, 0xA9, 0xE3, 0x81, 0x82, 0xF0, 0x9F, 0x98, 0x80]
   \<and> is_binary_sample [0x41, 0xC3, 0xA9, 0xE3, 0x81, 0x82, 0xF0, 0x9F, 0x98, 0x80] = 0"
proof -
  have u: "utf8_sample [0x41, 0xC3, 0xA9, 0xE3, 0x81, 0x82, 0xF0, 0x9F, 0x98, 0x80]"
    by (intro utf8_sample.intros)
       (simp_all add: ascii_byte_def lead2_byte_def lead3_byte_def lead4_byte_def
          continuation_byte_def)
  from u valid_utf8_is_text [OF u] show ?thesis by simp
qed

text \<open>
  C5: for a non-empty sample of N bytes that is neither valid UTF-8 nor valid Shift-JIS
  and has no 0x00 byte, \<open>is_binary\<close> returns 1 (Binary) when the number of bytes that
  are not printable and not newline, carriage return or tab is strictly above 25% of N,
  and 0 (Text) when it is 25% of N or less.
\<close>

theorem fallback_threshold:
  assumes "buf \<noteq> []" and "\<not> utf8_sample buf" and "\<not> sjis_sample buf" and "0 \<notin> set buf"
  shows "(real (length (filter hidden_byte buf)) > 25 / 100 * real (length buf)
            \<longrightarrow> is_binary_sample buf = 1)
       \<and> (real (length (filter hidden_byte buf)) \<le> 25 / 100 * real (length buf)
            \<longrightarrow> is_binary_sample buf = 0)"
  using assms count_non_printable_nonzero [of 0 buf 0]
  by (simp add: is_binary_sample_def Let_def is_valid_utf8_iff is_valid_shift_jis_iff
        field_simps)

theorem fallback_threshold_witness:
  "length (filter hidden_byte [0x80, 0x41, 0x41, 0x41]) = 1
   \<and> is_binary_sample [0x80, 0x41, 0x41, 0x41] = 0
   \<and> length (filter hidden_byte [0x80, 0x80, 0x41, 0x41, 0x41, 0x41, 0x41]) = 2
   \<and> is_binary_sample [0x80, 0x80, 0x41, 0x41, 0x41, 0x41, 0x41] = 1"
proof -
  let ?a = "[0x80, 0x41, 0x41, 0x41] :: byte list"
  let ?b = "[0x80, 0x80, 0x41, 0x41, 0x41, 0x41, 0x41] :: byte list"
  have ua: "\<not> utf8_sample ?a"
    unfolding is_valid_utf8_iff [symmetric] by code_simp
  have ja: "\<not> sjis_sample ?a"
    unfolding is_valid_shift_jis_iff [symmetric] by code_simp
  have ub: "\<not> utf8_sample ?b"
    unfolding is_valid_utf8_iff [symmetric] by code_simp
  have jb: "\<not> sjis_sample ?b"
    unfolding is_valid_shift_jis_iff [symmetric] by code_simp
  have ha: "length (filter hidden_byte ?a) = 1"
    by (simp add: hidden_byte_def isprint_def)
  have hb: "length (filter hidden_byte ?b) = 2"
    by (simp add: hidden_byte_def isprint_def)
  have za: "0 \<notin> set ?a" and zb: "0 \<notin> set ?b" by simp_all
  have na: "?a \<noteq> []" and nb: "?b \<noteq> []" by simp_all
  from fallback_threshold [OF na ua ja za] ha have "is_binary_sample ?a = 0" by simp
  moreover from fallback_threshold [OF nb ub jb zb] hb have "is_binary_sample ?b = 1" by simp
  ultimately show ?thesis using ha hb by simp
qed

section \<open>The state after each operation\<close>

lemma tick_simps [simp]:
  "out (tick st) = out st" "err (tick st) = err st" "usage (tick st) = usage st"
  "clock (tick st) = Suc (clock st)" "opened (tick st) = opened st" "visited (tick st) = visited st"
  by (simp_all add: tick_def)

lemma fprintf_out_simps [simp]:
  "out (fprintf_out s st) = out st @ s" "err (fprintf_out s st) = err st"
  "usage (fprintf_out s st) = usage st"
  "clock (fprintf_out s st) = clock st" "opened (fprintf_out s st) = opened st"
  "visited (fprintf_out s st) = visited st"
  by (simp_all add: fprintf_out_def)

lemma fprintf_stderr_simps [simp]:
  "out (fprintf_stderr s st) = out st" "err (fprintf_stderr s st) = err st @ s"
  "usage (fprintf_stderr s st) = usage st"
  "clock (fprintf_stderr s st) = clock st" "opened (fprintf_stderr s st) = opened st"
  "visited (fprintf_stderr s st) = visited st"
  by (simp_all add: fprintf_stderr_def)

lemma perror_simps [simp]:
  "out (perror os s st) = out st"
  "err (perror os s st) = err st @ s @ '': '' @ os_strerror os (clock st) @ ''\<newline>''"
  "usage (perror os s st) = usage st"
  "clock (perror os s st) = clock st" "opened (perror os s st) = opened st"
  "visited (perror os s st) = visited st"
  by (simp_all add: perror_def)

subsection \<open>The copy loop\<close>

lemma fgets_chars_prefix: "fgets_chars k cs @ drop (length (fgets_chars k cs)) cs = cs"
  by (induction k cs rule: fgets_chars.induct) auto

lemma fgets_Bytes:
  assumes "bs \<noteq> []"
  shows "\<exists>buffer rest. fgets BUFFER_SIZE (Bytes bs) = Some (buffer, Bytes rest)
           \<and> buffer @ rest = bs \<and> length rest < length bs"
proof -
  let ?buffer = "fgets_chars (BUFFER_SIZE - 1) bs"
  from assms have "0 < length ?buffer" by (cases bs) (simp_all add: BUFFER_SIZE_def)
  with assms have "length (drop (length ?buffer) bs) < length bs" by simp
  with assms show ?thesis by (simp add: Let_def fgets_chars_prefix)
qed

lemma c_string_no_zero: "0 \<notin> set buffer \<Longrightarrow> c_string buffer = map byte_char buffer"
  by (induction buffer) (auto simp: c_string_def)

text \<open>On a stream that ends, the loop ends, and it changes \<open>out\<close> only.\<close>

lemma copy_lines_Bytes:
  "\<exists>s. copy_lines (Bytes bs) st = Some (st\<lparr>out := out st @ s\<rparr>)"
proof (induction bs arbitrary: st rule: length_induct)
  case (1 bs)
  show ?case
  proof (cases "bs = []")
    case True
    then have "copy_lines (Bytes bs) st = Some (st\<lparr>out := out st @ []\<rparr>)"
      by (subst copy_lines.simps) simp
    then show ?thesis by blast
  next
    case False
    from fgets_Bytes [OF False] obtain buffer rest where
      fg: "fgets BUFFER_SIZE (Bytes bs) = Some (buffer, Bytes rest)"
      and l: "length rest < length bs" by blast
    from "1.IH" l obtain s where
      "copy_lines (Bytes rest) (fprintf_out (c_string buffer) st)
         = Some ((fprintf_out (c_string buffer) st)\<lparr>out := out (fprintf_out (c_string buffer) st) @ s\<rparr>)"
      by blast
    with fg have "copy_lines (Bytes bs) st = Some (st\<lparr>out := out st @ (c_string buffer @ s)\<rparr>)"
      by (subst copy_lines.simps) (simp add: fprintf_out_def)
    then show ?thesis by blast
  qed
qed

lemma copy_lines_no_zero:
  "0 \<notin> set bs \<Longrightarrow> copy_lines (Bytes bs) st = Some (st\<lparr>out := out st @ map byte_char bs\<rparr>)"
proof (induction bs arbitrary: st rule: length_induct)
  case (1 bs)
  show ?case
  proof (cases "bs = []")
    case True
    then show ?thesis by (subst copy_lines.simps) simp
  next
    case False
    from fgets_Bytes [OF False] obtain buffer rest where
      fg: "fgets BUFFER_SIZE (Bytes bs) = Some (buffer, Bytes rest)"
      and split: "buffer @ rest = bs" and l: "length rest < length bs" by blast
    from "1.prems" split have zb: "0 \<notin> set buffer" and zr: "0 \<notin> set rest" by auto
    from "1.IH" l zr
    have "copy_lines (Bytes rest) (fprintf_out (c_string buffer) st)
          = Some (st\<lparr>out := out st @ map byte_char buffer @ map byte_char rest\<rparr>)"
      by (simp add: c_string_no_zero [OF zb] fprintf_out_def)
    also have "map byte_char buffer @ map byte_char rest = map byte_char bs"
      using split by auto
    finally show ?thesis using fg by (subst copy_lines.simps) simp
  qed
qed

text \<open>On a stream without an end, \<open>fgets\<close> never returns \<open>NULL\<close> and the loop never ends.\<close>

lemma copy_lines_is_Bytes:
  assumes "copy_lines stream st = Some st'"
  shows "is_Bytes stream"
proof (rule copy_lines.raw_induct [where P = "\<lambda>stream st st'. is_Bytes stream", OF _ assms])
  fix loop :: "file_stream \<Rightarrow> state \<Rightarrow> state option" and stream st st'
  assume IH: "\<And>s b y. loop s b = Some y \<Longrightarrow> is_Bytes s"
    and body: "(case fgets BUFFER_SIZE stream of None \<Rightarrow> Some st
                | Some (buffer, rest) \<Rightarrow> loop rest (fprintf_out (c_string buffer) st)) = Some st'"
  show "is_Bytes stream"
  proof (cases stream)
    case (Bytes bs)
    then show ?thesis by simp
  next
    case (Endless f)
    with body have "\<exists>buffer g. loop (Endless g) (fprintf_out (c_string buffer) st) = Some st'"
      by (auto simp: Let_def)
    then obtain buffer g where "loop (Endless g) (fprintf_out (c_string buffer) st) = Some st'"
      by blast
    from IH [OF this] show ?thesis by simp
  qed
qed

lemma copy_lines_Endless: "copy_lines (Endless f) st = None"
  using copy_lines_is_Bytes [of "Endless f" st] by (cases "copy_lines (Endless f) st") auto

lemma copy_lines_frame:
  assumes "copy_lines stream st = Some st'"
  shows "\<exists>s. st' = st\<lparr>out := out st @ s\<rparr>"
proof (cases stream)
  case (Bytes bs)
  with assms copy_lines_Bytes [of bs st] show ?thesis by auto
next
  case (Endless f)
  with assms show ?thesis by (simp add: copy_lines_Endless)
qed

subsection \<open>is_binary\<close>

lemma is_binary_snd [simp]:
  "out (snd (is_binary os path st)) = out st"
  "err (snd (is_binary os path st)) = err st"
  "usage (snd (is_binary os path st)) = usage st"
  "visited (snd (is_binary os path st)) = visited st"
  "opened (snd (is_binary os path st)) = opened st @ [path]"
  by (simp_all add: is_binary_def Let_def split: option.splits)

lemma count_non_printable_Inl:
  "count_non_printable buf len i n = Inl r \<Longrightarrow> r = 1"
proof (induction buf len i n rule: count_non_printable.induct)
  case (1 buf read_len i non_printable)
  from "1.prems" show ?case
    by (subst (asm) count_non_printable.simps) (auto split: if_splits dest: "1.IH")
qed

lemma is_binary_sample_range: "is_binary_sample buf = 0 \<or> is_binary_sample buf = 1"
  by (auto simp: is_binary_sample_def Let_def split: sum.splits dest: count_non_printable_Inl)

lemma is_binary_fst:
  "fst (is_binary os path st) =
     (case os_fopen os (clock st) path of
        None \<Rightarrow> -1
      | Some content \<Rightarrow>
          if os_malloc os (Suc (clock st)) then is_binary_sample (fread BINARY_CHECK_BYTES content)
          else -1)"
  by (simp add: is_binary_def Let_def split: option.splits)

lemma is_binary_clock:
  "clock (snd (is_binary os path st)) =
     (case os_fopen os (clock st) path of None \<Rightarrow> Suc (clock st) | Some content \<Rightarrow> Suc (Suc (clock st)))"
  by (simp add: is_binary_def Let_def split: option.splits)

lemma is_binary_range:
  "fst (is_binary os path st) = -1 \<or> fst (is_binary os path st) = 0 \<or> fst (is_binary os path st) = 1"
  using is_binary_sample_range by (auto simp: is_binary_fst split: option.splits)

subsection \<open>print_file_content\<close>

lemma rule_line_dash:
  "''--------------------------------------------------------------------------------'' = replicate 80 CHR ''-''"
  by (simp add: eval_nat_numeral)

lemma rule_line_equals:
  "''================================================================================'' = replicate 80 CHR ''=''"
  by (simp add: eval_nat_numeral)

lemma file_header_eq:
  "file_header path = replicate 80 CHR ''-'' @ ''\<newline>'' @ path @ '':\<newline>'' @ replicate 80 CHR ''-'' @ ''\<newline>''"
  unfolding file_header_def rule_line_dash [symmetric] by simp

lemma root_banner_eq:
  "root_banner r = replicate 80 CHR ''='' @ ''\<newline>'' @ r @ ''/\<newline>'' @ replicate 80 CHR ''='' @ ''\<newline>''"
  unfolding root_banner_def rule_line_equals [symmetric] by simp

text \<open>The five ways through \<open>print_file_content\<close>.\<close>

lemma print_file_content_cases [consumes 1, case_names unreadable binary vanished copied endless]:
  assumes "is_binary os path st = (bin, st1)"
  obtains
    "bin = -1"
      and "print_file_content os path st
             = Done (fprintf_out (''Cannot open file: '' @ path @ ''\<newline>\<newline>'')
                       (fprintf_out (file_header path) st1))"
  | "bin = 1"
      and "print_file_content os path st
             = Done (fprintf_out ''This is binary file\<newline>\<newline>'' (fprintf_out (file_header path) st1))"
  | "bin = 0" and "os_fopen os (clock st1) path = None"
      and "print_file_content os path st
             = Done (fprintf_out (''Cannot open file: '' @ path @ ''\<newline>\<newline>'')
                       (tick ((fprintf_out (file_header path) st1)\<lparr>opened := opened st1 @ [path]\<rparr>)))"
  | content st4 where "bin = 0" and "os_fopen os (clock st1) path = Some content"
      and "copy_lines content (tick ((fprintf_out (file_header path) st1)\<lparr>opened := opened st1 @ [path]\<rparr>))
             = Some st4"
      and "print_file_content os path st = Done (fprintf_out ''\<newline>'' st4)"
  | content where "bin = 0" and "os_fopen os (clock st1) path = Some content"
      and "copy_lines content (tick ((fprintf_out (file_header path) st1)\<lparr>opened := opened st1 @ [path]\<rparr>))
             = None"
      and "print_file_content os path st
             = Hangs (tick ((fprintf_out (file_header path) st1)\<lparr>opened := opened st1 @ [path]\<rparr>))"
proof -
  let ?st3 = "tick ((fprintf_out (file_header path) st1)\<lparr>opened := opened st1 @ [path]\<rparr>)"
  from assms is_binary_range [of os path st] have r: "bin = -1 \<or> bin = 0 \<or> bin = 1" by simp
  show ?thesis
  proof (cases "bin = -1")
    case True
    with assms that(1) show ?thesis by (simp add: print_file_content_def)
  next
    case n1: False
    show ?thesis
    proof (cases "bin = 1")
      case True
      with assms that(2) show ?thesis by (simp add: print_file_content_def)
    next
      case False
      with n1 r have b0: "bin = 0" by simp
      show ?thesis
      proof (cases "os_fopen os (clock st1) path")
        case None
        with b0 assms that(3) show ?thesis by (simp add: print_file_content_def Let_def)
      next
        case (Some content)
        show ?thesis
        proof (cases "copy_lines content ?st3")
          case None
          with Some b0 assms that(5) [of content] show ?thesis
            by (simp add: print_file_content_def Let_def)
        next
          case c: (Some st4)
          with Some b0 assms that(4) [of content st4] show ?thesis
            by (simp add: print_file_content_def Let_def)
        qed
      qed
    qed
  qed
qed



lemma print_file_content_visited [simp]:
  "visited (state_of (print_file_content os path st)) = visited st"
proof -
  obtain bin st1 where b: "is_binary os path st = (bin, st1)" by (cases "is_binary os path st")
  then have v: "visited st1 = visited st" using is_binary_snd(4) [of os path st] by simp
  from b show ?thesis
  proof (cases rule: print_file_content_cases)
    case (copied content st4)
    from copy_lines_frame [OF copied(3)] copied(4) v show ?thesis by auto
  qed (simp_all add: v)
qed

lemma print_file_content_out_header:
  "\<exists>s. out (state_of (print_file_content os path st)) = out st @ file_header path @ s"
proof -
  obtain bin st1 where b: "is_binary os path st = (bin, st1)" by (cases "is_binary os path st")
  then have o: "out st1 = out st" using is_binary_snd(1) [of os path st] by simp
  from b show ?thesis
  proof (cases rule: print_file_content_cases)
    case (copied content st4)
    from copy_lines_frame [OF copied(3)] copied(4) o show ?thesis by auto
  qed (simp_all add: o)
qed

lemma print_file_content_opened:
  assumes "is_binary os path st = (bin, st1)"
  shows "opened (state_of (print_file_content os path st))
           = opened st @ (if bin = 0 then [path, path] else [path])"
proof -
  from assms have o: "opened st1 = opened st @ [path]" using is_binary_snd(5) [of os path st] by simp
  from assms show ?thesis
  proof (cases rule: print_file_content_cases)
    case (copied content st4)
    from copy_lines_frame [OF copied(3)] copied(4) copied(1) o show ?thesis by auto
  qed (simp_all add: o)
qed

lemma print_file_content_opened_set:
  "set (opened (state_of (print_file_content os path st))) = insert path (set (opened st))"
proof -
  obtain bin st1 where b: "is_binary os path st = (bin, st1)" by (cases "is_binary os path st")
  from print_file_content_opened [OF b] show ?thesis by auto
qed


lemma print_file_content_text_ends:
  assumes "is_binary os path st = (0, st1)" and "os_fopen os (clock st1) path = Some (Bytes bs)"
  shows "\<exists>s. copy_lines (Bytes bs)
                (tick ((fprintf_out (file_header path) st1)\<lparr>opened := opened st1 @ [path]\<rparr>))
              = Some ((tick ((fprintf_out (file_header path) st1)\<lparr>opened := opened st1 @ [path]\<rparr>))
                        \<lparr>out := out st @ file_header path @ s\<rparr>)
            \<and> print_file_content os path st
              = Done ((tick ((fprintf_out (file_header path) st1)\<lparr>opened := opened st1 @ [path]\<rparr>))
                        \<lparr>out := out st @ file_header path @ s @ ''\<newline>''\<rparr>)"
proof -
  let ?st3 = "tick ((fprintf_out (file_header path) st1)\<lparr>opened := opened st1 @ [path]\<rparr>)"
  from assms(1) have o: "out st1 = out st" using is_binary_snd(1) [of os path st] by simp
  from copy_lines_Bytes [of bs ?st3] obtain s where
    c: "copy_lines (Bytes bs) ?st3 = Some (?st3\<lparr>out := out ?st3 @ s\<rparr>)" by blast
  from assms(1) show ?thesis
  proof (cases rule: print_file_content_cases)
    case (copied content st4)
    with assms(2) c o show ?thesis by (auto simp: fprintf_out_def)
  next
    case (endless content)
    with assms(2) c show ?thesis by simp
  qed (use assms(2) in simp_all)
qed

section \<open>Invariants of the walker\<close>

subsection \<open>One step of the loop, one invocation\<close>

lemma readdir_loop_step
  [case_names dot stat_fail descend stuck_dir skip_dir skip_out regular stuck_file]:
  obtains
    "name = ''.'' \<or> name = ''..''"
      and "readdir_loop fuel os (name # names) dir d m ofp st
             = readdir_loop fuel os names dir d m ofp st"
  | "name \<noteq> ''.''" and "name \<noteq> ''..''" and "os_stat os (clock st) (entry_path dir name) = None"
      and "readdir_loop fuel os (name # names) dir d m ofp st
             = readdir_loop fuel os names dir d m ofp (perror os ''stat'' (tick st))"
  | st1 where "name \<noteq> ''.''" and "name \<noteq> ''..''"
      and "os_stat os (clock st) (entry_path dir name) = Some True" and "m = -1 \<or> d < m"
      and "traverse_directory fuel os (entry_path dir name) (d + 1) m ofp (tick st) = Done st1"
      and "readdir_loop fuel os (name # names) dir d m ofp st
             = readdir_loop fuel os names dir d m ofp st1"
  | "name \<noteq> ''.''" and "name \<noteq> ''..''"
      and "os_stat os (clock st) (entry_path dir name) = Some True" and "m = -1 \<or> d < m"
      and "\<not> is_Done (traverse_directory fuel os (entry_path dir name) (d + 1) m ofp (tick st))"
      and "readdir_loop fuel os (name # names) dir d m ofp st
             = traverse_directory fuel os (entry_path dir name) (d + 1) m ofp (tick st)"
  | "name \<noteq> ''.''" and "name \<noteq> ''..''"
      and "os_stat os (clock st) (entry_path dir name) = Some True" and "m \<noteq> -1" and "\<not> d < m"
      and "readdir_loop fuel os (name # names) dir d m ofp st
             = readdir_loop fuel os names dir d m ofp (tick st)"
  | "name \<noteq> ''.''" and "name \<noteq> ''..''"
      and "os_stat os (clock st) (entry_path dir name) = Some False"
      and "entry_path dir name = ofp"
      and "readdir_loop fuel os (name # names) dir d m ofp st
             = readdir_loop fuel os names dir d m ofp (tick st)"
  | st1 where "name \<noteq> ''.''" and "name \<noteq> ''..''"
      and "os_stat os (clock st) (entry_path dir name) = Some False"
      and "entry_path dir name \<noteq> ofp"
      and "print_file_content os (entry_path dir name) (tick st) = Done st1"
      and "readdir_loop fuel os (name # names) dir d m ofp st
             = readdir_loop fuel os names dir d m ofp st1"
  | "name \<noteq> ''.''" and "name \<noteq> ''..''"
      and "os_stat os (clock st) (entry_path dir name) = Some False"
      and "entry_path dir name \<noteq> ofp"
      and "\<not> is_Done (print_file_content os (entry_path dir name) (tick st))"
      and "readdir_loop fuel os (name # names) dir d m ofp st
             = print_file_content os (entry_path dir name) (tick st)"
proof (cases "name = ''.'' \<or> name = ''..''")
  case True
  with that(1) show ?thesis by simp
next
  case nd: False
  show ?thesis
  proof (cases "os_stat os (clock st) (entry_path dir name)")
    case None
    with nd that(2) show ?thesis by (simp add: Let_def)
  next
    case (Some is_dir)
    show ?thesis
    proof (cases is_dir)
      case True
      show ?thesis
      proof (cases "m = -1 \<or> d < m")
        case rec: True
        show ?thesis
        proof (cases "traverse_directory fuel os (entry_path dir name) (d + 1) m ofp (tick st)")
          case (Done st1)
          with rec True Some nd that(3) [of st1] show ?thesis by (simp add: Let_def)
        next
          case (Hangs s)
          with rec True Some nd that(4) show ?thesis by (simp add: Let_def)
        next
          case (Overflow s)
          with rec True Some nd that(4) show ?thesis by (simp add: Let_def)
        qed
      next
        case False
        with True Some nd that(5) show ?thesis by (simp add: Let_def)
      qed
    next
      case False
      show ?thesis
      proof (cases "entry_path dir name = ofp")
        case True
        with False Some nd that(6) show ?thesis by (simp add: Let_def)
      next
        case nf: False
        show ?thesis
        proof (cases "print_file_content os (entry_path dir name) (tick st)")
          case (Done st1)
          with nf False Some nd that(7) [of st1] show ?thesis by (simp add: Let_def)
        next
          case (Hangs s)
          with nf False Some nd that(8) show ?thesis by (simp add: Let_def)
        next
          case (Overflow s)
          with nf False Some nd that(8) show ?thesis by (simp add: Let_def)
        qed
      qed
    qed
  qed
qed

lemma traverse_directory_step [case_names guard no_dir listed]:
  obtains "m \<noteq> -1" and "d > m"
      and "traverse_directory (Suc k) os dir d m ofp st
             = Done (st\<lparr>visited := visited st @ [(dir, d)]\<rparr>)"
  | "m = -1 \<or> d \<le> m" and "os_opendir os (clock st) dir = None"
      and "traverse_directory (Suc k) os dir d m ofp st
             = Done (fprintf_out (''Cannot open directory: '' @ dir @ ''\<newline>'')
                       (tick (st\<lparr>visited := visited st @ [(dir, d)]\<rparr>)))"
  | names where "m = -1 \<or> d \<le> m" and "os_opendir os (clock st) dir = Some names"
      and "traverse_directory (Suc k) os dir d m ofp st
             = readdir_loop k os names dir d m ofp (tick (st\<lparr>visited := visited st @ [(dir, d)]\<rparr>))"
proof (cases "m \<noteq> -1 \<and> d > m")
  case True
  with that(1) show ?thesis by (simp add: Let_def)
next
  case ng: False
  show ?thesis
  proof (cases "os_opendir os (clock st) dir")
    case None
    with ng that(2) show ?thesis by (auto simp: Let_def)
  next
    case (Some names)
    with ng that(3) [of names] show ?thesis by (auto simp: Let_def)
  qed
qed

subsection \<open>Depths of the invocations\<close>



subsection \<open>The output and the logs only grow\<close>

lemma readdir_loop_extends:
  assumes T: "\<And>p e st. \<exists>vs s. visited (state_of (traverse_directory fuel os p e m ofp st)) = visited st @ vs
                \<and> out (state_of (traverse_directory fuel os p e m ofp st)) = out st @ s"
  shows "\<exists>vs s. visited (state_of (readdir_loop fuel os names dir d m ofp st)) = visited st @ vs
           \<and> out (state_of (readdir_loop fuel os names dir d m ofp st)) = out st @ s"
proof (induction names arbitrary: st)
  case Nil
  show ?case by simp
next
  case (Cons name names)
  show ?case
  proof (cases rule: readdir_loop_step [of name fuel os names dir d m ofp st])
    case dot
    with Cons.IH [of st] show ?thesis by simp
  next
    case stat_fail
    with Cons.IH [of "perror os ''stat'' (tick st)"] show ?thesis by simp
  next
    case (descend st1)
    from T [of "entry_path dir name" "d + 1" "tick st"] descend(5) obtain vs1 s1 where
      "visited st1 = visited st @ vs1" and "out st1 = out st @ s1" by auto
    moreover from Cons.IH [of st1] obtain vs2 s2 where
      "visited (state_of (readdir_loop fuel os names dir d m ofp st1)) = visited st1 @ vs2"
      and "out (state_of (readdir_loop fuel os names dir d m ofp st1)) = out st1 @ s2" by auto
    ultimately have
      "visited (state_of (readdir_loop fuel os names dir d m ofp st1)) = visited st @ (vs1 @ vs2)"
      and "out (state_of (readdir_loop fuel os names dir d m ofp st1)) = out st @ (s1 @ s2)"
      by simp_all
    with descend(6) show ?thesis by metis
  next
    case stuck_dir
    with T [of "entry_path dir name" "d + 1" "tick st"] show ?thesis by simp
  next
    case skip_dir
    with Cons.IH [of "tick st"] show ?thesis by simp
  next
    case skip_out
    with Cons.IH [of "tick st"] show ?thesis by simp
  next
    case (regular st1)
    from regular(5) print_file_content_visited [of os "entry_path dir name" "tick st"]
      print_file_content_out_header [of os "entry_path dir name" "tick st"]
    obtain s1 where "visited st1 = visited st" and "out st1 = out st @ s1" by auto
    moreover from Cons.IH [of st1] obtain vs2 s2 where
      "visited (state_of (readdir_loop fuel os names dir d m ofp st1)) = visited st1 @ vs2"
      and "out (state_of (readdir_loop fuel os names dir d m ofp st1)) = out st1 @ s2" by auto
    ultimately have
      "visited (state_of (readdir_loop fuel os names dir d m ofp st1)) = visited st @ vs2"
      and "out (state_of (readdir_loop fuel os names dir d m ofp st1)) = out st @ (s1 @ s2)"
      by simp_all
    with regular(6) show ?thesis by metis
  next
    case stuck_file
    from print_file_content_out_header [of os "entry_path dir name" "tick st"] obtain s1 where
      "out (state_of (print_file_content os (entry_path dir name) (tick st))) = out st @ s1"
      by auto
    with stuck_file(6) show ?thesis by simp
  qed
qed

lemma traverse_directory_extends:
  "\<exists>vs s. visited (state_of (traverse_directory fuel os p d m ofp st)) = visited st @ vs
     \<and> out (state_of (traverse_directory fuel os p d m ofp st)) = out st @ s"
proof (induction fuel arbitrary: p d st)
  case 0
  show ?case by simp
next
  case (Suc fuel)
  show ?case
  proof (cases rule: traverse_directory_step [of m d fuel os p ofp st])
    case guard
    then show ?thesis by simp
  next
    case no_dir
    then show ?thesis by simp
  next
    case (listed names)
    let ?st0 = "tick (st\<lparr>visited := visited st @ [(p, d)]\<rparr>)"
    from readdir_loop_extends [of fuel os m ofp names p d ?st0, OF Suc.IH]
    obtain vs s where "visited (state_of (readdir_loop fuel os names p d m ofp ?st0)) = visited ?st0 @ vs"
      and "out (state_of (readdir_loop fuel os names p d m ofp ?st0)) = out ?st0 @ s" by auto
    then have "visited (state_of (readdir_loop fuel os names p d m ofp ?st0)) = visited st @ ((p, d) # vs)"
      and "out (state_of (readdir_loop fuel os names p d m ofp ?st0)) = out st @ s" by simp_all
    with listed(3) show ?thesis by metis
  qed
qed

lemma traverse_directory_logs_itself:
  "\<exists>vs. visited (state_of (traverse_directory (Suc fuel) os p d m ofp st)) = visited st @ (p, d) # vs"
proof (cases rule: traverse_directory_step [of m d fuel os p ofp st])
  case guard
  then show ?thesis by simp
next
  case no_dir
  then show ?thesis by simp
next
  case (listed names)
  let ?st0 = "tick (st\<lparr>visited := visited st @ [(p, d)]\<rparr>)"
  from readdir_loop_extends [of fuel os m ofp names p d ?st0, OF traverse_directory_extends]
  obtain vs where "visited (state_of (readdir_loop fuel os names p d m ofp ?st0)) = visited ?st0 @ vs"
    by auto
  with listed(3) show ?thesis by simp
qed


text \<open>
  The guard of the loop compares strings: a path equal to \<open>output_file_path\<close> is never
  handed to \<open>fopen\<close> by the walker.
\<close>

lemma readdir_loop_opened:
  assumes T: "\<And>p e st. set (opened (state_of (traverse_directory fuel os p e m ofp st)))
                \<subseteq> set (opened st) \<union> {q. q \<noteq> ofp}"
  shows "set (opened (state_of (readdir_loop fuel os names dir d m ofp st)))
           \<subseteq> set (opened st) \<union> {q. q \<noteq> ofp}"
proof (induction names arbitrary: st)
  case Nil
  show ?case by simp
next
  case (Cons name names)
  show ?case
  proof (cases rule: readdir_loop_step [of name fuel os names dir d m ofp st])
    case dot
    with Cons.IH [of st] show ?thesis by simp
  next
    case stat_fail
    with Cons.IH [of "perror os ''stat'' (tick st)"] show ?thesis by simp
  next
    case (descend st1)
    from T [of "entry_path dir name" "d + 1" "tick st"] descend(5)
    have "set (opened st1) \<subseteq> set (opened st) \<union> {q. q \<noteq> ofp}" by simp
    with Cons.IH [of st1] descend(6) show ?thesis by auto
  next
    case stuck_dir
    with T [of "entry_path dir name" "d + 1" "tick st"] show ?thesis by simp
  next
    case skip_dir
    with Cons.IH [of "tick st"] show ?thesis by simp
  next
    case skip_out
    with Cons.IH [of "tick st"] show ?thesis by simp
  next
    case (regular st1)
    from regular(5) print_file_content_opened_set [of os "entry_path dir name" "tick st"] regular(4)
    have "set (opened st1) \<subseteq> set (opened st) \<union> {q. q \<noteq> ofp}" by auto
    with Cons.IH [of st1] regular(6) show ?thesis by auto
  next
    case stuck_file
    with print_file_content_opened_set [of os "entry_path dir name" "tick st"] show ?thesis
      by auto
  qed
qed

lemma traverse_directory_opened:
  "set (opened (state_of (traverse_directory fuel os p d m ofp st)))
     \<subseteq> set (opened st) \<union> {q. q \<noteq> ofp}"
proof (induction fuel arbitrary: p d st)
  case 0
  show ?case by simp
next
  case (Suc fuel)
  show ?case
  proof (cases rule: traverse_directory_step [of m d fuel os p ofp st])
    case guard
    then show ?thesis by simp
  next
    case no_dir
    then show ?thesis by simp
  next
    case (listed names)
    from readdir_loop_opened [of fuel os m ofp names p d
           "tick (st\<lparr>visited := visited st @ [(p, d)]\<rparr>)", OF Suc.IH] listed(3)
    show ?thesis by simp
  qed
qed

lemma output_path_string_not_opened:
  "ofp \<notin> set (opened st) \<Longrightarrow>
     ofp \<notin> set (opened (state_of (traverse_directory fuel os p d m ofp st)))"
  using traverse_directory_opened [of fuel os p d m ofp st] by auto

subsection \<open>When the stack is deep enough\<close>





subsection \<open>When every file ends\<close>




subsection \<open>A directory at the limit\<close>



subsection \<open>The files of a directory at the limit\<close>


section \<open>Runs of main\<close>

lemma getopt_loop_Inl:
  "getopt_loop gs opts st = Inl (code, st') \<Longrightarrow> visited st' = visited st \<and> out st' = out st"
  by (induction gs opts st rule: getopt_loop.induct)
     (auto simp: print_usage_def split: if_splits option.splits)

lemma getopt_loop_Inr:
  "getopt_loop gs opts st = Inr (opts', st') \<Longrightarrow>
     st' = st \<and> (max_depth opts' = max_depth opts \<or> 0 \<le> max_depth opts')"
  by (induction gs opts st rule: getopt_loop.induct) (auto split: if_splits)

lemma fopen_output_Inl:
  "fopen_output os opts p st = Inl (code, st') \<Longrightarrow>
     code = EXIT_FAILURE \<and> visited st' = visited st \<and> out st' = out st"
  by (auto simp: fopen_output_def split: if_splits)

lemma fopen_output_Inr:
  "fopen_output os opts p st = Inr (q, st') \<Longrightarrow> visited st' = visited st \<and> out st' = out st"
  by (auto simp: fopen_output_def split: if_splits)

lemma choose_output_Inl:
  "choose_output os opts st = Inl (code, st') \<Longrightarrow>
     code = EXIT_FAILURE \<and> visited st' = visited st \<and> out st' = out st"
  by (auto simp: choose_output_def split: if_splits option.splits dest!: fopen_output_Inl)

lemma choose_output_Inr:
  "choose_output os opts st = Inr (q, st') \<Longrightarrow> visited st' = visited st \<and> out st' = out st"
  by (auto simp: choose_output_def split: if_splits option.splits dest!: fopen_output_Inr)

text \<open>
  A run of \<open>main\<close> that returns either stopped before the traversal or ran it to its
  end and returns \<open>EXIT_SUCCESS\<close>.
\<close>

lemma main_cases:
  assumes "main fuel os argc gs ops = Done (code, st')"
  obtains (early) "visited st' = []" and "out st' = []"
  | (walked) opts st0 dir_path rest ofp st1 where
      "getopt_loop gs \<lparr>output_file = [], max_depth = -1\<rparr> init_state = Inr (opts, st0)"
      and "ops = dir_path # rest"
      and "choose_output os opts (tick st0) = Inr (ofp, st1)"
      and "out st1 = []" and "visited st1 = []"
      and "traverse_directory fuel os (normalize_path (snprintf MAX_PATH_LENGTH dir_path)) 0
             (max_depth opts) ofp
             (fprintf_out (root_banner (normalize_path (snprintf MAX_PATH_LENGTH dir_path))) st1)
           = Done st'"
      and "code = EXIT_SUCCESS"
proof (cases "argc < 2")
  case True
  with assms early show ?thesis by (auto simp: main_def print_usage_def init_state_def)
next
  case argc: False
  show ?thesis
  proof (cases "getopt_loop gs \<lparr>output_file = [], max_depth = -1\<rparr> init_state")
    case (Inl r)
    with argc assms have "getopt_loop gs \<lparr>output_file = [], max_depth = -1\<rparr> init_state = Inl (code, st')"
      by (simp add: main_def)
    from getopt_loop_Inl [OF this] early show ?thesis by (simp add: init_state_def)
  next
    case (Inr r)
    obtain opts st0 where r: "r = (opts, st0)" by (cases r)
    with Inr have g: "getopt_loop gs \<lparr>output_file = [], max_depth = -1\<rparr> init_state = Inr (opts, st0)"
      by simp
    from getopt_loop_Inr [OF g] have st0: "st0 = init_state" by simp
    show ?thesis
    proof (cases ops)
      case Nil
      with argc g assms early show ?thesis
        by (auto simp: main_def print_usage_def st0 init_state_def)
    next
      case (Cons dir_path rest)
      show ?thesis
      proof (cases "os_stat os (clock st0) dir_path")
        case None
        with argc g Cons assms early show ?thesis
          by (auto simp: main_def st0 init_state_def)
      next
        case (Some is_dir)
        show ?thesis
        proof (cases is_dir)
          case False
          with Some argc g Cons assms early show ?thesis
            by (auto simp: main_def st0 init_state_def)
        next
          case True
          show ?thesis
          proof (cases "choose_output os opts (tick st0)")
            case (Inl e)
            with True Some argc g Cons assms
            have "choose_output os opts (tick st0) = Inl (code, st')"
              by (simp add: main_def)
            from choose_output_Inl [OF this] early show ?thesis by (simp add: st0 init_state_def)
          next
            case (Inr q)
            obtain ofp st1 where q: "q = (ofp, st1)" by (cases q)
            with Inr have c: "choose_output os opts (tick st0) = Inr (ofp, st1)" by simp
            from choose_output_Inr [OF c] have e: "out st1 = []" "visited st1 = []"
              by (simp_all add: st0 init_state_def)
            from True Some argc g Cons c assms have
              "traverse_directory fuel os (normalize_path (snprintf MAX_PATH_LENGTH dir_path)) 0
                 (max_depth opts) ofp
                 (fprintf_out (root_banner (normalize_path (snprintf MAX_PATH_LENGTH dir_path))) st1)
               = Done st'" and "code = EXIT_SUCCESS"
              by (auto simp: main_def Let_def split: outcome.splits)
            with walked [OF g Cons c e] show ?thesis by simp
          qed
        qed
      qed
    qed
  qed
qed




lemma main_banner:
  assumes "main fuel os argc gs ops = Done (code, st')" and "visited st' \<noteq> []"
  shows "\<exists>rest. out st' = root_banner (normalize_path (snprintf MAX_PATH_LENGTH (hd ops))) @ rest"
  using assms(1)
proof (cases rule: main_cases)
  case early
  with assms(2) show ?thesis by simp
next
  case (walked opts st0 dir_path rest ofp st1)
  from traverse_directory_extends [of fuel os
         "normalize_path (snprintf MAX_PATH_LENGTH dir_path)" 0 "max_depth opts" ofp
         "fprintf_out (root_banner (normalize_path (snprintf MAX_PATH_LENGTH dir_path))) st1"]
    walked(6) walked(4) walked(2)
  show ?thesis by auto
qed


section \<open>The example hosts\<close>

subsection \<open>The demonstration tree and the working directory\<close>





lemma cwd_run:
  "main 1 cwd_os 4 [Opt_o ''out.txt''] [''.''] =
     (case traverse_directory 1 cwd_os ''.'' 0 (-1) ''/w/out.txt''
             (fprintf_out (root_banner ''.'') (tick (tick (tick init_state)))) of
        Done st3 \<Rightarrow> Done (EXIT_SUCCESS, st3)
      | Hangs st3 \<Rightarrow> Hangs st3
      | Overflow st3 \<Rightarrow> Overflow st3)"
proof -
  have c: "choose_output cwd_os \<lparr>output_file = ''out.txt'', max_depth = -1\<rparr> (tick init_state)
             = Inr (''/w/out.txt'', tick (tick (tick init_state)))"
    by (simp add: choose_output_def fopen_output_def cwd_os_def)
  have n: "normalize_path (snprintf MAX_PATH_LENGTH ''.'') = ''.''" by code_simp
  have s: "os_stat cwd_os (clock init_state) ''.'' = Some True" by (simp add: cwd_os_def)
  show ?thesis
    by (simp add: main_def MAX_OUTPUT_FILE_def c n s Let_def del: traverse_directory.simps)
qed

subsection \<open>The host with the endless file\<close>









subsection \<open>The host with the backslash entry\<close>




section \<open>Properties of the classifier on files\<close>

text \<open>
  C8: two files whose first 2048 bytes are the same get the same verdict; the verdict is
  a function of the first min(file size, 2048) bytes alone (both files being opened, and
  the sample buffer allocated). A stream without an end is judged by its first 2048
  bytes as well.
\<close>

theorem classification_reads_sample_only:
  assumes "os_fopen os (clock st) path = Some content"
    and "os_fopen os' (clock st') path' = Some content'"
    and "os_malloc os (Suc (clock st))" and "os_malloc os' (Suc (clock st'))"
    and "fread 2048 content = fread 2048 content'"
  shows "fst (is_binary os path st) = fst (is_binary os' path' st')
       \<and> fst (is_binary os path st) = is_binary_sample (fread 2048 content)
       \<and> (\<forall>bs. content = Bytes bs \<longrightarrow>
            fst (is_binary os path st) = is_binary_sample (take (min (length bs) 2048) bs))"
proof -
  have "take (min (length bs) 2048) bs = take 2048 bs" for bs :: "byte list"
    by (cases "length bs \<le> 2048") (simp_all add: min_def)
  with assms show ?thesis by (auto simp: is_binary_fst BINARY_CHECK_BYTES_def)
qed

theorem classification_reads_sample_only_witness:
  "fst (is_binary (demo_os\<lparr>os_fopen := \<lambda>t p. Some (Bytes (long_text @ [0x00, 0xFF]))\<rparr>) ''x'' init_state)
     = fst (is_binary (demo_os\<lparr>os_fopen := \<lambda>t p. Some (Bytes (long_text @ [0x41]))\<rparr>) ''y'' init_state)"
proof -
  let ?os = "demo_os\<lparr>os_fopen := \<lambda>t p. Some (Bytes (long_text @ [0x00, 0xFF]))\<rparr>"
  let ?os' = "demo_os\<lparr>os_fopen := \<lambda>t p. Some (Bytes (long_text @ [0x41]))\<rparr>"
  have 1: "os_fopen ?os (clock init_state) ''x'' = Some (Bytes (long_text @ [0x00, 0xFF]))" by simp
  have 2: "os_fopen ?os' (clock init_state) ''y'' = Some (Bytes (long_text @ [0x41]))" by simp
  have 3: "os_malloc ?os (Suc (clock init_state))" by (simp add: demo_os_def)
  have 4: "os_malloc ?os' (Suc (clock init_state))" by (simp add: demo_os_def)
  have l: "length long_text = 2048" by (simp add: long_text_def)
  have 5: "fread 2048 (Bytes (long_text @ [0x00, 0xFF])) = fread 2048 (Bytes (long_text @ [0x41]))"
    by (simp add: l)
  from classification_reads_sample_only [OF 1 2 3 4 5] show ?thesis by (rule conjunct1)
qed

section \<open>Properties of the file records\<close>

text \<open>
  C6, as stated: the record of a file classified Text ends with the file's raw content
  and a blank line. Two records refute it. The file \<open>f\<close> is classified Text and is
  gone at the second \<open>fopen\<close>: its record ends with the "Cannot open file" notice. The
  file \<open>n\<close> holds \<open>a\<close>, a zero byte, \<open>b\<close> and a newline: it passes the UTF-8
  validation, and \<open>fprintf("%s")\<close> stops at the zero byte, so the record shows \<open>a\<close> only.
\<close>

theorem text_record_without_content:
  "fst (is_binary vanishing_os ''f'' init_state) = 0
   \<and> map_outcome out (print_file_content vanishing_os ''f'' init_state)
       = Done (file_header ''f'' @ ''Cannot open file: f\<newline>\<newline>'')
   \<and> map_outcome out (print_file_content vanishing_os ''f'' init_state)
       \<noteq> Done (file_header ''f'' @ map byte_char [0x68, 0x69, 0x0A] @ ''\<newline>'')
   \<and> fst (is_binary nul_os ''n'' init_state) = 0
   \<and> map_outcome out (print_file_content nul_os ''n'' init_state)
       = Done (file_header ''n'' @ ''a\<newline>'')
   \<and> map_outcome out (print_file_content nul_os ''n'' init_state)
       \<noteq> Done (file_header ''n'' @ map byte_char [0x61, 0x00, 0x62, 0x0A] @ ''\<newline>'')"
  by code_simp

text \<open>
  C6, amended: the record of every file starts with a rule line of 80 \<open>-\<close>, the path
  followed by \<open>:\<close> and a newline, and the same rule line again, whatever follows and
  whether or not the record is ever finished. Then come: the "Cannot open file" notice
  when \<open>is_binary\<close> returns -1; the "This is binary file" notice when it returns 1; when
  it returns 0 (Text), the "Cannot open file" notice if the second \<open>fopen\<close> fails, and
  otherwise, for a file that ends, what the copy loop writes followed by one newline,
  which for content without a zero byte is the content byte for byte. For a file that
  never ends the record is never finished. The banner \<open>main\<close> writes before the
  traversal has rule lines of 80 \<open>=\<close>.
\<close>

theorem file_record_format:
  assumes "is_binary os path st = (bin, st1)"
  shows "(\<exists>s. out (state_of (print_file_content os path st))
              = out st @ replicate 80 CHR ''-'' @ ''\<newline>'' @ path @ '':\<newline>''
                  @ replicate 80 CHR ''-'' @ ''\<newline>'' @ s)
       \<and> (bin = -1 \<longrightarrow>
            map_outcome out (print_file_content os path st)
              = Done (out st @ replicate 80 CHR ''-'' @ ''\<newline>'' @ path @ '':\<newline>''
                  @ replicate 80 CHR ''-'' @ ''\<newline>''
                  @ ''Cannot open file: '' @ path @ ''\<newline>\<newline>''))
       \<and> (bin = 1 \<longrightarrow>
            map_outcome out (print_file_content os path st)
              = Done (out st @ replicate 80 CHR ''-'' @ ''\<newline>'' @ path @ '':\<newline>''
                  @ replicate 80 CHR ''-'' @ ''\<newline>''
                  @ ''This is binary file\<newline>\<newline>''))
       \<and> (bin = 0 \<and> os_fopen os (clock st1) path = None \<longrightarrow>
            map_outcome out (print_file_content os path st)
              = Done (out st @ replicate 80 CHR ''-'' @ ''\<newline>'' @ path @ '':\<newline>''
                  @ replicate 80 CHR ''-'' @ ''\<newline>''
                  @ ''Cannot open file: '' @ path @ ''\<newline>\<newline>''))
       \<and> (\<forall>content. bin = 0 \<and> os_fopen os (clock st1) path = Some (Bytes content)
              \<and> 0 \<notin> set content \<longrightarrow>
            map_outcome out (print_file_content os path st)
              = Done (out st @ replicate 80 CHR ''-'' @ ''\<newline>'' @ path @ '':\<newline>''
                  @ replicate 80 CHR ''-'' @ ''\<newline>''
                  @ map byte_char content @ ''\<newline>''))
       \<and> (\<forall>content. bin = 0 \<and> os_fopen os (clock st1) path = Some (Bytes content) \<longrightarrow>
            (\<exists>s. map_option out
                    (copy_lines (Bytes content)
                       (tick ((fprintf_out (file_header path) st1)\<lparr>opened := opened st1 @ [path]\<rparr>)))
                    = Some (out st @ file_header path @ s)
                \<and> map_outcome out (print_file_content os path st)
                    = Done (out st @ replicate 80 CHR ''-'' @ ''\<newline>'' @ path @ '':\<newline>''
                        @ replicate 80 CHR ''-'' @ ''\<newline>'' @ s @ ''\<newline>'')))
       \<and> (\<forall>f. bin = 0 \<and> os_fopen os (clock st1) path = Some (Endless f) \<longrightarrow>
            is_Hangs (print_file_content os path st))
       \<and> (\<forall>fuel argc gs ops code st'.
            main fuel os argc gs ops = Done (code, st') \<and> visited st' \<noteq> [] \<longrightarrow>
            (\<exists>rest. out st'
               = replicate 80 CHR ''='' @ ''\<newline>''
                   @ normalize_path (snprintf MAX_PATH_LENGTH (hd ops)) @ ''/\<newline>''
                   @ replicate 80 CHR ''='' @ ''\<newline>'' @ rest))"
proof -
  let ?st3 = "tick ((fprintf_out (file_header path) st1)\<lparr>opened := opened st1 @ [path]\<rparr>)"
  from assms have o: "out st1 = out st" using is_binary_snd(1) [of os path st] by simp
  have h: "\<exists>s. out (state_of (print_file_content os path st))
              = out st @ replicate 80 CHR ''-'' @ ''\<newline>'' @ path @ '':\<newline>''
                  @ replicate 80 CHR ''-'' @ ''\<newline>'' @ s"
    using print_file_content_out_header [of os path st] by (simp add: file_header_eq)
  have a: "bin = -1 \<longrightarrow>
            map_outcome out (print_file_content os path st)
              = Done (out st @ replicate 80 CHR ''-'' @ ''\<newline>'' @ path @ '':\<newline>''
                  @ replicate 80 CHR ''-'' @ ''\<newline>''
                  @ ''Cannot open file: '' @ path @ ''\<newline>\<newline>'')"
    using assms o by (cases rule: print_file_content_cases) (simp_all add: file_header_eq)
  have b: "bin = 1 \<longrightarrow>
            map_outcome out (print_file_content os path st)
              = Done (out st @ replicate 80 CHR ''-'' @ ''\<newline>'' @ path @ '':\<newline>''
                  @ replicate 80 CHR ''-'' @ ''\<newline>''
                  @ ''This is binary file\<newline>\<newline>'')"
    using assms o by (cases rule: print_file_content_cases) (simp_all add: file_header_eq)
  have c: "bin = 0 \<and> os_fopen os (clock st1) path = None \<longrightarrow>
            map_outcome out (print_file_content os path st)
              = Done (out st @ replicate 80 CHR ''-'' @ ''\<newline>'' @ path @ '':\<newline>''
                  @ replicate 80 CHR ''-'' @ ''\<newline>''
                  @ ''Cannot open file: '' @ path @ ''\<newline>\<newline>'')"
    using assms o by (cases rule: print_file_content_cases) (simp_all add: file_header_eq)
  have e: "\<forall>content. bin = 0 \<and> os_fopen os (clock st1) path = Some (Bytes content) \<longrightarrow>
            (\<exists>s. map_option out (copy_lines (Bytes content) ?st3)
                    = Some (out st @ file_header path @ s)
                \<and> map_outcome out (print_file_content os path st)
                    = Done (out st @ replicate 80 CHR ''-'' @ ''\<newline>'' @ path @ '':\<newline>''
                        @ replicate 80 CHR ''-'' @ ''\<newline>'' @ s @ ''\<newline>''))"
  proof (intro allI impI)
    fix content
    assume x: "bin = 0 \<and> os_fopen os (clock st1) path = Some (Bytes content)"
    with assms have "is_binary os path st = (0, st1)" by simp
    from print_file_content_text_ends [OF this, of content] x obtain s where
      k: "copy_lines (Bytes content) ?st3 = Some (?st3\<lparr>out := out st @ file_header path @ s\<rparr>)"
      and l: "print_file_content os path st
             = Done (?st3\<lparr>out := out st @ file_header path @ s @ ''\<newline>''\<rparr>)" by blast
    show "\<exists>s. map_option out (copy_lines (Bytes content) ?st3)
                    = Some (out st @ file_header path @ s)
                \<and> map_outcome out (print_file_content os path st)
                    = Done (out st @ replicate 80 CHR ''-'' @ ''\<newline>'' @ path @ '':\<newline>''
                        @ replicate 80 CHR ''-'' @ ''\<newline>'' @ s @ ''\<newline>'')"
    proof (intro exI [where x = s] conjI)
      from k show "map_option out (copy_lines (Bytes content) ?st3)
                     = Some (out st @ file_header path @ s)" by simp
    next
      from l show "map_outcome out (print_file_content os path st)
                    = Done (out st @ replicate 80 CHR ''-'' @ ''\<newline>'' @ path @ '':\<newline>''
                        @ replicate 80 CHR ''-'' @ ''\<newline>'' @ s @ ''\<newline>'')"
        by (simp add: file_header_eq)
    qed
  qed
  have d: "\<forall>content. bin = 0 \<and> os_fopen os (clock st1) path = Some (Bytes content)
              \<and> 0 \<notin> set content \<longrightarrow>
            map_outcome out (print_file_content os path st)
              = Done (out st @ replicate 80 CHR ''-'' @ ''\<newline>'' @ path @ '':\<newline>''
                  @ replicate 80 CHR ''-'' @ ''\<newline>''
                  @ map byte_char content @ ''\<newline>'')"
  proof (intro allI impI)
    fix content
    assume x: "bin = 0 \<and> os_fopen os (clock st1) path = Some (Bytes content) \<and> 0 \<notin> set content"
    then have z: "0 \<notin> set content" by simp
    from assms x show "map_outcome out (print_file_content os path st)
              = Done (out st @ replicate 80 CHR ''-'' @ ''\<newline>'' @ path @ '':\<newline>''
                  @ replicate 80 CHR ''-'' @ ''\<newline>''
                  @ map byte_char content @ ''\<newline>'')"
      by (cases rule: print_file_content_cases)
         (auto simp: copy_lines_no_zero [OF z] o file_header_eq)
  qed
  have f: "\<forall>f. bin = 0 \<and> os_fopen os (clock st1) path = Some (Endless f) \<longrightarrow>
            is_Hangs (print_file_content os path st)"
    using assms by (cases rule: print_file_content_cases) (auto simp: copy_lines_Endless)
  have g: "\<forall>fuel argc gs ops code st'.
            main fuel os argc gs ops = Done (code, st') \<and> visited st' \<noteq> [] \<longrightarrow>
            (\<exists>rest. out st'
               = replicate 80 CHR ''='' @ ''\<newline>''
                   @ normalize_path (snprintf MAX_PATH_LENGTH (hd ops)) @ ''/\<newline>''
                   @ replicate 80 CHR ''='' @ ''\<newline>'' @ rest)"
  proof (intro allI impI)
    fix fuel argc gs ops code and st' :: state
    assume "main fuel os argc gs ops = Done (code, st') \<and> visited st' \<noteq> []"
    with main_banner [of fuel os argc gs ops code st'] obtain rest where
      "out st' = root_banner (normalize_path (snprintf MAX_PATH_LENGTH (hd ops))) @ rest" by blast
    then show "\<exists>rest. out st'
               = replicate 80 CHR ''='' @ ''\<newline>''
                   @ normalize_path (snprintf MAX_PATH_LENGTH (hd ops)) @ ''/\<newline>''
                   @ replicate 80 CHR ''='' @ ''\<newline>'' @ rest"
      by (simp add: root_banner_eq)
  qed
  from h a b c d e f g show ?thesis by (intro conjI)
qed

theorem file_record_format_witness:
  "map_outcome out (print_file_content demo_os ''/r/a.txt'' init_state)
     = Done (replicate 80 CHR ''-'' @ ''\<newline>'' @ ''/r/a.txt:\<newline>'' @ replicate 80 CHR ''-'' @ ''\<newline>''
         @ ''hello\<newline>'' @ ''\<newline>'')"
proof -
  let ?st1 = "tick (tick (init_state\<lparr>opened := opened init_state @ [''/r/a.txt'']\<rparr>))"
  have b: "is_binary demo_os ''/r/a.txt'' init_state = (0, ?st1)" by code_simp
  have f: "os_fopen demo_os (clock ?st1) ''/r/a.txt'' = Some (Bytes [0x68, 0x65, 0x6C, 0x6C, 0x6F, 0x0A])"
    by (simp add: demo_os_def)
  have z: "(0 :: byte) \<notin> set [0x68, 0x65, 0x6C, 0x6C, 0x6F, 0x0A]" by simp
  have m: "map byte_char [0x68, 0x65, 0x6C, 0x6C, 0x6F, 0x0A] = ''hello\<newline>''" by code_simp
  from file_record_format [OF b, THEN conjunct2, THEN conjunct2, THEN conjunct2, THEN conjunct2,
         THEN conjunct1, rule_format, of "[0x68, 0x65, 0x6C, 0x6C, 0x6F, 0x0A]"] f z
  have "map_outcome out (print_file_content demo_os ''/r/a.txt'' init_state)
          = Done (out init_state @ replicate 80 CHR ''-'' @ ''\<newline>'' @ ''/r/a.txt'' @ '':\<newline>''
              @ replicate 80 CHR ''-'' @ ''\<newline>''
              @ map byte_char [0x68, 0x65, 0x6C, 0x6C, 0x6F, 0x0A] @ ''\<newline>'')"
    by simp
  then show ?thesis unfolding m by (simp add: init_state_def)
qed

text \<open>
  C10, as stated: every emitted file record opens the file twice. The record of a
  binary file refutes it: \<open>is_binary\<close> returns 1, the notice is printed and the file is
  not opened again.
\<close>

theorem binary_record_opens_once:
  "map_outcome out (print_file_content demo_os ''/r/sub/b.bin'' init_state)
     = Done (file_header ''/r/sub/b.bin'' @ ''This is binary file\<newline>\<newline>'')
   \<and> map_outcome opened (print_file_content demo_os ''/r/sub/b.bin'' init_state)
     = Done [''/r/sub/b.bin'']"
  by code_simp

text \<open>
  C10, amended: a record opens the file once for the classification sample, and a
  second time, for the content, only when the sample is classified Text (0); a Binary
  or Unreadable record makes the one call. When the file is Text and the second
  \<open>fopen\<close> fails, the header (rule line, path line, rule line) is still written,
  followed by the "Cannot open file" notice and an empty line.
\<close>

theorem file_record_opens:
  assumes "is_binary os path st = (bin, st1)"
  shows "opened (state_of (print_file_content os path st))
           = opened st @ (if bin = 0 then [path, path] else [path])
       \<and> (bin = 0 \<and> os_fopen os (clock st1) path = None \<longrightarrow>
            map_outcome out (print_file_content os path st)
              = Done (out st @ replicate 80 CHR ''-'' @ ''\<newline>'' @ path @ '':\<newline>''
                  @ replicate 80 CHR ''-'' @ ''\<newline>''
                  @ ''Cannot open file: '' @ path @ ''\<newline>\<newline>''))"
proof (intro conjI impI)
  show "opened (state_of (print_file_content os path st))
           = opened st @ (if bin = 0 then [path, path] else [path])"
    by (rule print_file_content_opened [OF assms])
next
  assume a: "bin = 0 \<and> os_fopen os (clock st1) path = None"
  from assms have o: "out st1 = out st" using is_binary_snd(1) [of os path st] by simp
  from assms a o
  show "map_outcome out (print_file_content os path st)
          = Done (out st @ replicate 80 CHR ''-'' @ ''\<newline>'' @ path @ '':\<newline>''
              @ replicate 80 CHR ''-'' @ ''\<newline>''
              @ ''Cannot open file: '' @ path @ ''\<newline>\<newline>'')"
    by (cases rule: print_file_content_cases) (simp_all add: file_header_eq)
qed

theorem file_record_opens_witness:
  "opened (state_of (print_file_content vanishing_os ''f'' init_state)) = [''f'', ''f'']
   \<and> map_outcome out (print_file_content vanishing_os ''f'' init_state)
       = Done (replicate 80 CHR ''-'' @ ''\<newline>'' @ ''f:\<newline>'' @ replicate 80 CHR ''-'' @ ''\<newline>''
           @ ''Cannot open file: f\<newline>\<newline>'')"
proof -
  have b: "is_binary vanishing_os ''f'' init_state
             = (0, tick (tick (init_state\<lparr>opened := opened init_state @ [''f'']\<rparr>)))"
    by code_simp
  have c: "os_fopen vanishing_os (clock (tick (tick (init_state\<lparr>opened := opened init_state @ [''f'']\<rparr>)))) ''f'' = None"
    by code_simp
  from file_record_opens [OF b] c show ?thesis by (simp add: init_state_def)
qed

section \<open>Properties of the walker\<close>

text \<open>
  C9: when \<open>stat\<close> fails on an entry, the loop goes on with the remaining entries of the
  directory; nothing is written to \<open>out\<close> for the entry, nothing is opened or visited,
  and the diagnostic of \<open>perror\<close> goes to standard error.
\<close>

theorem stat_failure_skips_entry:
  assumes "name \<noteq> ''.''" and "name \<noteq> ''..''"
    and "os_stat os (clock st) (entry_path dir name) = None"
  shows "readdir_loop fuel os (name # names) dir d m ofp st
           = readdir_loop fuel os names dir d m ofp (perror os ''stat'' (tick st))
       \<and> out (perror os ''stat'' (tick st)) = out st
       \<and> opened (perror os ''stat'' (tick st)) = opened st
       \<and> visited (perror os ''stat'' (tick st)) = visited st
       \<and> err (perror os ''stat'' (tick st))
           = err st @ ''stat: '' @ os_strerror os (Suc (clock st)) @ ''\<newline>''"
  using assms by (simp add: Let_def)

theorem stat_failure_skips_entry_witness:
  "map_outcome out (readdir_loop 0 demo_os [''gone'', ''a.txt''] ''/r'' 0 0 [] init_state)
     = map_outcome out (readdir_loop 0 demo_os [''a.txt''] ''/r'' 0 0 [] (perror demo_os ''stat'' (tick init_state)))
   \<and> map_outcome out (readdir_loop 0 demo_os [''gone'', ''a.txt''] ''/r'' 0 0 [] init_state)
     = Done (file_header ''/r/a.txt'' @ ''hello\<newline>\<newline>'')
   \<and> map_outcome err (readdir_loop 0 demo_os [''gone'', ''a.txt''] ''/r'' 0 0 [] init_state)
     = Done ''stat: No such file or directory\<newline>''"
proof -
  have 1: "''gone'' \<noteq> ''.''" and 2: "''gone'' \<noteq> ''..''" by simp_all
  have 3: "os_stat demo_os (clock init_state) (entry_path ''/r'' ''gone'') = None" by code_simp
  have o: "map_outcome out (readdir_loop 0 demo_os [''a.txt''] ''/r'' 0 0 [] (perror demo_os ''stat'' (tick init_state)))
     = Done (file_header ''/r/a.txt'' @ ''hello\<newline>\<newline>'')" by code_simp
  have e: "map_outcome err (readdir_loop 0 demo_os [''a.txt''] ''/r'' 0 0 [] (perror demo_os ''stat'' (tick init_state)))
     = Done ''stat: No such file or directory\<newline>''" by code_simp
  from stat_failure_skips_entry [OF 1 2 3, of 0 "[''a.txt'']" 0 0 "[]"] o e show ?thesis by simp
qed



section \<open>Properties of a run\<close>




text \<open>
  C2 says that an output file inside the traversal root is never opened for reading
  and gets no record, whatever form the root path has. The code does not keep this for
  a relative root. In the run \<open>vita -o out.txt .\<close> in \<open>/w\<close>, \<open>realpath\<close> resolves the
  output file to \<open>/w/out.txt\<close>, the walker builds \<open>./out.txt\<close> from the root as given,
  \<open>strcmp\<close> finds the two strings different, and the output file is opened (twice) and
  gets a record.
\<close>

theorem output_file_read_back:
  "map_outcome (\<lambda>r. (fst r, out (snd r), opened (snd r)))
       (main 1 cwd_os 4 [Opt_o ''out.txt''] [''.''])
     = Done (EXIT_SUCCESS,
             root_banner ''.''
               @ file_header ''./a.txt'' @ ''hi\<newline>\<newline>''
               @ file_header ''./out.txt'' @ ''\<newline>'',
             [''./a.txt'', ''./a.txt'', ''./out.txt'', ''./out.txt''])"
  unfolding cwd_run by code_simp

end
